theory Spec2Isabelle
  imports Main "HOL-Library.AList"
begin

section \<open>Python values used by the SD card informer\<close>

text \<open>
  The development embeds \<^verbatim>\<open>old_buddy/informers/sd_card.py\<close>: the class
  \<^verbatim>\<open>InternalFileTree\<close> (a mutable tree of Python objects) and the class
  \<^verbatim>\<open>SDCard\<close> (the presence state machine run by the poller thread).
  Python exceptions are values of \<open>error\<close>; a method that raises returns \<open>Inl e\<close>
  together with the state as mutated up to the raise. A call that does not return is
  \<open>None\<close>. A character of a string stands for the code point of its number, so the
  strings are those of code points below 256. The interpreter's own limits (recursion
  depth, memory) are not part of the model.
\<close>

datatype error = ValueError | AttributeError | IndexError | KeyError | OverflowError

subsection \<open>String methods\<close>

text \<open>\<^verbatim>\<open>s.strip(ch)\<close> for a one-character argument.\<close>

definition py_strip :: "char \<Rightarrow> string \<Rightarrow> string" where
  "py_strip ch s = rev (dropWhile (\<lambda>c. c = ch) (rev (dropWhile (\<lambda>c. c = ch) s)))"

text \<open>\<^verbatim>\<open>s.split(sep, 1)\<close> for a one-character separator. Python returns a list of
  one part (no separator in \<open>s\<close>) or of two parts (cut at the first separator); the
  model returns the first part and, when there is one, the second.\<close>

definition py_split1 :: "char \<Rightarrow> string \<Rightarrow> string \<times> string option" where
  "py_split1 sep s =
     (if sep \<in> set s
      then (takeWhile (\<lambda>c. c \<noteq> sep) s, Some (tl (dropWhile (\<lambda>c. c \<noteq> sep) s)))
      else (s, None))"

text \<open>\<^verbatim>\<open>s.split(sep)\<close> for a one-character separator: cut at every separator,
  empty parts kept.\<close>

fun py_split :: "char \<Rightarrow> string \<Rightarrow> string list" where
  "py_split sep [] = [[]]"
| "py_split sep (c # cs) =
     (if c = sep then [] # py_split sep cs
      else (case py_split sep cs of
              [] \<Rightarrow> [[c]]
            | p # ps \<Rightarrow> (c # p) # ps))"

text \<open>\<^verbatim>\<open>s.lower()\<close>: below code point 256 the upper-case letters are the codes
  65 to 90 and 192 to 222 without 215; each gets bit 5 set, which adds 32.\<close>

definition lower_char :: "char \<Rightarrow> char" where
  "lower_char c =
     (let n = (of_char c :: nat)
      in if (65 \<le> n \<and> n \<le> 90) \<or> (192 \<le> n \<and> n \<le> 222 \<and> n \<noteq> 215)
         then Char (digit0 c) (digit1 c) (digit2 c) (digit3 c) (digit4 c) True
                (digit6 c) (digit7 c)
         else c)"

definition py_lower :: "string \<Rightarrow> string" where
  "py_lower s = map lower_char s"

text \<open>
  \<^verbatim>\<open>int(s)\<close>: surrounding whitespace is dropped (below code point 256 that is the
  codes 9 to 13, 32, 133 and 160), then comes an optional sign, then decimal digits,
  where single underscores may stand between digits. Anything else raises ValueError.
  The bound that later interpreters put on the number of digits is not part of the
  model.
\<close>

definition is_digit :: "char \<Rightarrow> bool" where
  "is_digit c = (let n = (of_char c :: nat) in 48 \<le> n \<and> n \<le> 57)"

definition digit_val :: "char \<Rightarrow> nat" where
  "digit_val c = (of_char c :: nat) - 48"

definition is_space :: "char \<Rightarrow> bool" where
  "is_space c =
     (let n = (of_char c :: nat) in (9 \<le> n \<and> n \<le> 13) \<or> n = 32 \<or> n = 133 \<or> n = 160)"

fun parse_digits :: "nat \<Rightarrow> string \<Rightarrow> nat option" where
  "parse_digits acc [] = Some acc"
| "parse_digits acc [c] =
     (if is_digit c then Some (acc * 10 + digit_val c) else None)"
| "parse_digits acc (c # d # cs) =
     (if is_digit c then parse_digits (acc * 10 + digit_val c) (d # cs)
      else if c = CHR ''_'' \<and> is_digit d then parse_digits acc (d # cs)
      else None)"

definition parse_unsigned :: "string \<Rightarrow> nat option" where
  "parse_unsigned s =
     (case s of
        [] \<Rightarrow> None
      | c # _ \<Rightarrow> if is_digit c then parse_digits 0 s else None)"

definition py_int :: "string \<Rightarrow> error + int" where
  "py_int s =
     (let t = rev (dropWhile is_space (rev (dropWhile is_space s)));
          r = (case t of
                 [] \<Rightarrow> None
               | c # cs \<Rightarrow>
                   if c = CHR ''-'' then map_option (\<lambda>n. - int n) (parse_unsigned cs)
                   else if c = CHR ''+'' then map_option int (parse_unsigned cs)
                   else map_option int (parse_unsigned t))
      in case r of None \<Rightarrow> Inl ValueError | Some i \<Rightarrow> Inr i)"

text \<open>
  \<^verbatim>\<open>size / 1000\<close> on an integer gives the nearest float and raises OverflowError
  when that is beyond the largest float: when the size is, in absolute value, at least
  1000 times \<open>2 ^ 1024 - 2 ^ 970\<close>, the number written out below.
\<close>

definition overflow_bound :: int where
  "overflow_bound =
     179769313486231580793728971405303415079934132710037826936173778980444968292764750946649017977587207096330286416692887910946555547851940402630657488671505820681908902000708383676273854845817711531764475730270069855571366959622842914819860834936475292719074168444365510704342711559699508093042880177904174497792000"

definition kb_overflows :: "int \<Rightarrow> bool" where
  "kb_overflows sz = (overflow_bound \<le> \<bar>sz\<bar>)"

text \<open>\<^verbatim>\<open>sep.join(parts)\<close>.\<close>

fun py_join :: "string \<Rightarrow> string list \<Rightarrow> string" where
  "py_join sep [] = []"
| "py_join sep [p] = p"
| "py_join sep (p # q # ps) = p @ sep @ py_join sep (q # ps)"

section \<open>The file tree\<close>

subsection \<open>Objects and the heap\<close>

text \<open>
  Modelled from the spec: the enumeration \<^verbatim>\<open>FileType\<close> of
  \<^verbatim>\<open>old_buddy.structures.model_classes\<close>, whose members the source names
  \<^verbatim>\<open>FileType.DIR\<close>, \<^verbatim>\<open>FileType.FILE\<close> and \<^verbatim>\<open>FileType.MOUNT\<close>.
\<close>

datatype FileType = DIR | FILE | MOUNT

text \<open>
  An \<^verbatim>\<open>InternalFileTree\<close> is a Python object: it is mutated in place and other
  objects hold references to it. \<^verbatim>\<open>children_dict\<close> is a Python dict, which keeps
  insertion order, hence an association list. \<^verbatim>\<open>descendants_set\<close> is a Python set
  of references; the list holds no element twice, and its order stands for the iteration
  order, which Python leaves open.
\<close>

type_synonym addr = nat

record InternalFileTree =
  type :: FileType
  path :: string
  ro :: "bool option"
  size' :: "int option"
  m_date :: "int option"
  m_time :: "int option"
  descendants_set :: "addr list"
  children_dict :: "(string \<times> addr) list"
  parent :: "addr option"
  full_path :: string

text \<open>
  The heap holds the objects in the order of their creation. The address of an object
  (its identity, what \<^verbatim>\<open>is\<close> compares) is its position; \<open>fresh\<close> is the address
  the next object will get. A Python reference always points to an object; an address
  beyond the heap, which no run of the program produces, reads as \<open>blank\<close> and cannot
  be written.
\<close>

type_synonym heap = "InternalFileTree list"

definition blank :: InternalFileTree where
  "blank = \<lparr>type = DIR, path = [], ro = None, size' = None, m_date = None, m_time = None,
            descendants_set = [], children_dict = [], parent = None, full_path = []\<rparr>"

definition fresh :: "heap \<Rightarrow> addr" where
  "fresh h = length h"

definition cells :: "heap \<Rightarrow> addr \<Rightarrow> InternalFileTree" where
  "cells h a = (if a < length h then h ! a else blank)"

definition alloc :: "heap \<Rightarrow> InternalFileTree \<Rightarrow> heap" where
  "alloc h n = h @ [n]"

definition put :: "heap \<Rightarrow> addr \<Rightarrow> InternalFileTree \<Rightarrow> heap" where
  "put h a n = h[a := n]"

subsection \<open>Hashing, equality and Python sets\<close>

text \<open>
  \<^verbatim>\<open>__hash__\<close> hashes the tuple (type, ro, size, m_date, m_time). The model keeps
  the tuple itself, so two objects have the same hash exactly when the tuples agree.
\<close>

type_synonym fingerprint =
  "FileType \<times> bool option \<times> int option \<times> int option \<times> int option"

definition hash' :: "InternalFileTree \<Rightarrow> fingerprint" where
  "hash' n = (type n, ro n, size' n, m_date n, m_time n)"

text \<open>
  The class defines no \<^verbatim>\<open>__eq__\<close>, so \<^verbatim>\<open>==\<close> on two of its objects is the one
  inherited from \<^verbatim>\<open>object\<close>: identity.
\<close>

definition eq' :: "addr \<Rightarrow> addr \<Rightarrow> bool" where
  "eq' a b = (a = b)"

text \<open>
  A Python set finds an element by its hash and then compares the candidates with
  \<^verbatim>\<open>is\<close> or \<^verbatim>\<open>==\<close>: \<open>x\<close> is in the set when some element has the hash of
  \<open>x\<close> and is \<open>x\<close> or equals \<open>x\<close>.
\<close>

fun set_contains :: "heap \<Rightarrow> addr list \<Rightarrow> addr \<Rightarrow> bool" where
  "set_contains h [] x = False"
| "set_contains h (y # S) x =
     ((hash' (cells h y) = hash' (cells h x) \<and> (y = x \<or> eq' y x)) \<or> set_contains h S x)"

definition set_add :: "heap \<Rightarrow> addr list \<Rightarrow> addr \<Rightarrow> addr list" where
  "set_add h S x = (if set_contains h S x then S else S @ [x])"

fun set_difference :: "heap \<Rightarrow> addr list \<Rightarrow> addr list \<Rightarrow> addr list" where
  "set_difference h [] B = []"
| "set_difference h (x # A) B =
     (if set_contains h B x then set_difference h A B else x # set_difference h A B)"

definition set_intersection :: "string list \<Rightarrow> string list \<Rightarrow> string list" where
  "set_intersection A B = filter (\<lambda>x. x \<in> set B) A"

subsection \<open>Construction\<close>

text \<open>
  \<^verbatim>\<open>get_full_path\<close> walks the parent references up to an object without parent and
  collects the path segments on the way. The loop ends only if the chain of parents
  ends, so it is a partial function.
\<close>

partial_function (option) walk_up :: "heap \<Rightarrow> string list \<Rightarrow> addr \<Rightarrow> string list option" where
  "walk_up h acc current_node =
     (case parent (cells h current_node) of
        None \<Rightarrow> Some acc
      | Some p \<Rightarrow> walk_up h (acc @ [path (cells h current_node)]) p)"

declare walk_up.simps [code]

definition get_full_path :: "heap \<Rightarrow> addr \<Rightarrow> string option" where
  "get_full_path h self =
     map_option (\<lambda>segs. ''/'' @ py_join ''/'' (rev segs)) (walk_up h [] self)"

text \<open>
  The constructor. Every call in the source passes \<^verbatim>\<open>file_type\<close> and
  \<^verbatim>\<open>path\<close>, some pass \<^verbatim>\<open>ro\<close> or \<^verbatim>\<open>size\<close>, none passes
  \<^verbatim>\<open>m_date\<close>, \<^verbatim>\<open>m_time\<close> or \<^verbatim>\<open>parent\<close>, which stay None.
\<close>

definition InternalFileTree_init ::
  "heap \<Rightarrow> FileType \<Rightarrow> string \<Rightarrow> bool option \<Rightarrow> int option \<Rightarrow> (addr \<times> heap) option" where
  "InternalFileTree_init h file_type pth r sz =
     (let self = fresh h;
          n = \<lparr>type = file_type, path = pth, ro = r, size' = sz, m_date = None,
               m_time = None, descendants_set = [], children_dict = [], parent = None,
               full_path = []\<rparr>;
          h1 = alloc h n
      in case get_full_path h1 self of
           None \<Rightarrow> None
         | Some fp \<Rightarrow> Some (self, put h1 self (n\<lparr>full_path := fp\<rparr>)))"

definition new_root_node :: "heap \<Rightarrow> (addr \<times> heap) option" where
  "new_root_node h = InternalFileTree_init h DIR ''sd_card'' None None"

text \<open>\<^verbatim>\<open>__bool__\<close>: a tree is true when its descendants set is not empty.\<close>

definition bool' :: "heap \<Rightarrow> addr \<Rightarrow> bool" where
  "bool' h self = (descendants_set (cells h self) \<noteq> [])"

text \<open>The setter of the property \<^verbatim>\<open>parent\<close>.\<close>

definition set_parent :: "heap \<Rightarrow> addr \<Rightarrow> addr \<Rightarrow> heap option" where
  "set_parent h self p =
     (let h1 = put h self ((cells h self)\<lparr>parent := Some p\<rparr>)
      in case get_full_path h1 self of
           None \<Rightarrow> None
         | Some fp \<Rightarrow> Some (put h1 self ((cells h1 self)\<lparr>full_path := fp\<rparr>)))"

definition add_child :: "heap \<Rightarrow> addr \<Rightarrow> addr \<Rightarrow> (addr \<times> heap) option" where
  "add_child h self child =
     (let h1 = put h self ((cells h self)
                 \<lparr>children_dict :=
                    AList.update (path (cells h child)) child (children_dict (cells h self))\<rparr>)
      in if parent (cells h1 child) = None
         then map_option (\<lambda>h2. (child, h2)) (set_parent h1 child self)
         else Some (child, h1))"

definition descendants_add :: "heap \<Rightarrow> addr \<Rightarrow> addr \<Rightarrow> heap" where
  "descendants_add h self x =
     put h self ((cells h self)
       \<lparr>descendants_set := set_add h (descendants_set (cells h self)) x\<rparr>)"

text \<open>
  \<^verbatim>\<open>child_from_path\<close> parses one line of the listing below \<open>self\<close>. It returns the
  FILE object it created, and every object on the way down adds that object to its own
  descendants set. The two unpacking assignments and \<^verbatim>\<open>int\<close> raise ValueError;
  the heap then keeps the directories made so far. The debug record written between the
  creation of the FILE object and \<^verbatim>\<open>add_child\<close> formats \<^verbatim>\<open>size / 1000\<close> and so
  raises OverflowError for a size beyond the floats; the object then exists and is no
  one's child. The other debug records carry text only and are left out.
\<close>

function child_from_path :: "heap \<Rightarrow> addr \<Rightarrow> string \<Rightarrow> ((error + addr) \<times> heap) option" where
  "child_from_path h self line =
     (let clean_line = py_strip CHR ''/'' line
      in case py_split1 CHR ''/'' clean_line of
           (pth, Some rest) \<Rightarrow>
             (case (if map_of (children_dict (cells h self)) pth = None
                    then (case InternalFileTree_init h DIR pth None None of
                            None \<Rightarrow> None
                          | Some (child, h1) \<Rightarrow> map_option snd (add_child h1 self child))
                    else Some h) of
                None \<Rightarrow> None
              | Some h2 \<Rightarrow>
                  (case map_of (children_dict (cells h2 self)) pth of
                     None \<Rightarrow> Some (Inl KeyError, h2)
                   | Some c \<Rightarrow>
                       (case child_from_path h2 c rest of
                          None \<Rightarrow> None
                        | Some (Inl e, h3) \<Rightarrow> Some (Inl e, h3)
                        | Some (Inr added_child, h3) \<Rightarrow>
                            Some (Inr added_child, descendants_add h3 self added_child))))
         | (whole, None) \<Rightarrow>
             (case py_split CHR '' '' whole of
                [pth, str_size] \<Rightarrow>
                  (case py_int str_size of
                     Inl e \<Rightarrow> Some (Inl e, h)
                   | Inr sz \<Rightarrow>
                       (case InternalFileTree_init h FILE pth None (Some sz) of
                          None \<Rightarrow> None
                        | Some (child, h1) \<Rightarrow>
                            if kb_overflows sz then Some (Inl OverflowError, h1)
                            else (case add_child h1 self child of
                                    None \<Rightarrow> None
                                  | Some (added_child, h2) \<Rightarrow>
                                      Some (Inr added_child,
                                            descendants_add h2 self added_child))))
              | _ \<Rightarrow> Some (Inl ValueError, h)))"
  by pat_completeness auto

termination child_from_path
proof (relation "measure (\<lambda>(h, self, line). length line)", goal_cases)
  case 1
  show ?case by simp
next
  case (2 h self line clean_line pth rest' rest h2 c)
  then have split: "py_split1 CHR ''/'' (py_strip CHR ''/'' line) = (pth, Some rest)"
    by simp
  let ?clean = "py_strip CHR ''/'' line"
  let ?cut = "dropWhile (\<lambda>c. c \<noteq> CHR ''/'') ?clean"
  from split have mem: "CHR ''/'' \<in> set ?clean" and rest: "rest = tl ?cut"
    by (auto simp: py_split1_def split: if_splits)
  from mem have "?cut \<noteq> []"
    by simp
  then have "length rest < length ?cut"
    unfolding rest by (cases ?cut) simp_all
  also have "\<dots> \<le> length ?clean"
    by (rule length_dropWhile_le)
  also have "\<dots> \<le> length (dropWhile (\<lambda>c. c = CHR ''/'') line)"
    unfolding py_strip_def
    using length_dropWhile_le [of _ "rev (dropWhile (\<lambda>c. c = CHR ''/'') line)"] by simp
  also have "\<dots> \<le> length line"
    by (rule length_dropWhile_le)
  finally show ?case by simp
qed

declare child_from_path.simps [simp del]

text \<open>
  Whether \<^verbatim>\<open>child_from_path\<close> raises on a line, and what, is decided by the line
  alone: \<open>line_error\<close> makes the same cuts and the same tests without the heap.
\<close>

function line_error :: "string \<Rightarrow> error option" where
  "line_error line =
     (case py_split1 CHR ''/'' (py_strip CHR ''/'' line) of
        (pth, Some rest) \<Rightarrow> line_error rest
      | (whole, None) \<Rightarrow>
          (case py_split CHR '' '' whole of
             [pth, str_size] \<Rightarrow>
               (case py_int str_size of
                  Inl e \<Rightarrow> Some e
                | Inr sz \<Rightarrow> if kb_overflows sz then Some OverflowError else None)
           | _ \<Rightarrow> Some ValueError))"
  by pat_completeness auto

termination line_error
proof (relation "measure length", goal_cases)
  case 1
  show ?case by simp
next
  case (2 line pth rest' rest)
  then have split: "py_split1 CHR ''/'' (py_strip CHR ''/'' line) = (pth, Some rest)"
    by simp
  let ?clean = "py_strip CHR ''/'' line"
  let ?cut = "dropWhile (\<lambda>c. c \<noteq> CHR ''/'') ?clean"
  from split have mem: "CHR ''/'' \<in> set ?clean" and rest: "rest = tl ?cut"
    by (auto simp: py_split1_def split: if_splits)
  from mem have "?cut \<noteq> []"
    by simp
  then have "length rest < length ?cut"
    unfolding rest by (cases ?cut) simp_all
  also have "\<dots> \<le> length ?clean"
    by (rule length_dropWhile_le)
  also have "\<dots> \<le> length (dropWhile (\<lambda>c. c = CHR ''/'') line)"
    unfolding py_strip_def
    using length_dropWhile_le [of _ "rev (dropWhile (\<lambda>c. c = CHR ''/'') line)"] by simp
  also have "\<dots> \<le> length line"
    by (rule length_dropWhile_le)
  finally show ?case by simp
qed

declare line_error.simps [simp del]

text \<open>
  The objects created since the heap had \<open>base\<close> objects form trees of their own:
  the parent of such an object is an older one of them, and its children are younger
  ones.
\<close>

definition grown_from :: "addr \<Rightarrow> heap \<Rightarrow> bool" where
  "grown_from base h =
     ((\<forall>a p. base \<le> a \<and> a < length h \<and> parent (cells h a) = Some p
             \<longrightarrow> base \<le> p \<and> p < a)
      \<and> (\<forall>a k c. base \<le> a \<and> a < length h \<and> (k, c) \<in> set (children_dict (cells h a))
             \<longrightarrow> a < c \<and> c < length h))"

subsection \<open>Comparison and conversion\<close>

datatype log_record = Debug string | Error string

text \<open>
  \<^verbatim>\<open>diff\<close> returns nothing; what it computes is visible in the debug records it
  writes. Its two local sets are definitions of their own, each following its line of the
  source.
\<close>

definition removed_files :: "heap \<Rightarrow> addr \<Rightarrow> addr \<Rightarrow> addr list" where
  "removed_files h self other_tree =
     set_difference h (descendants_set (cells h self))
       (descendants_set (cells h other_tree))"

definition new_files :: "heap \<Rightarrow> addr \<Rightarrow> addr \<Rightarrow> addr list" where
  "new_files h self other_tree =
     set_difference h (descendants_set (cells h self))
       (descendants_set (cells h other_tree))"

text \<open>The set comprehension over \<^verbatim>\<open>file.full_path\<close> and the two loops that write
  the log.\<close>

fun full_paths :: "heap \<Rightarrow> addr list \<Rightarrow> string list" where
  "full_paths h [] = []"
| "full_paths h (file # files) = full_path (cells h file) # full_paths h files"

fun log_removed :: "heap \<Rightarrow> string list \<Rightarrow> addr list \<Rightarrow> log_record list" where
  "log_removed h changed_file_paths [] = []"
| "log_removed h changed_file_paths (file # files) =
     (if full_path (cells h file) \<in> set changed_file_paths
      then Debug (''File at '' @ full_path (cells h file) @ '' has been changed.'')
      else Debug (''File at '' @ full_path (cells h file) @ '' has been removed.''))
     # log_removed h changed_file_paths files"

fun log_created :: "heap \<Rightarrow> string list \<Rightarrow> addr list \<Rightarrow> log_record list" where
  "log_created h changed_file_paths [] = []"
| "log_created h changed_file_paths (file # files) =
     (if full_path (cells h file) \<notin> set changed_file_paths
      then Debug (''File at '' @ full_path (cells h file) @ '' has been created.'')
             # log_created h changed_file_paths files
      else log_created h changed_file_paths files)"

definition diff :: "heap \<Rightarrow> addr \<Rightarrow> addr \<Rightarrow> log_record list" where
  "diff h self other_tree =
     (let removed_paths = remdups (full_paths h (removed_files h self other_tree));
          new_paths = remdups (full_paths h (new_files h self other_tree));
          changed_file_paths = set_intersection removed_paths new_paths
      in log_removed h changed_file_paths (removed_files h self other_tree)
         @ log_created h changed_file_paths (new_files h self other_tree))"

text \<open>
  Modelled from the spec: the class \<^verbatim>\<open>FileTree\<close> of
  \<^verbatim>\<open>old_buddy.structures.model_classes\<close>, the externally consumed tree. Its fields,
  in the order \<^verbatim>\<open>to_api_file_tree\<close> assigns them: type, path, ro, size, m_date,
  m_time, children.
\<close>

datatype FileTree =
  FileTree string string "bool option" "int option" "int option" "int option"
    "FileTree list option"

definition name :: "FileType \<Rightarrow> string" where
  "name t = (case t of DIR \<Rightarrow> ''DIR'' | FILE \<Rightarrow> ''FILE'' | MOUNT \<Rightarrow> ''MOUNT'')"

definition api_node :: "InternalFileTree \<Rightarrow> FileTree list \<Rightarrow> FileTree" where
  "api_node n children =
     FileTree (name (type n)) (path n) (ro n) (size' n) (m_date n) (m_time n)
       (if children = [] then None else Some children)"

text \<open>
  \<^verbatim>\<open>to_api_file_tree\<close> converts the children in the order of the dict and then the
  object itself. The conversion of a list of objects is the recursive function; it
  returns only if the descent through the children ends.
\<close>

partial_function (option) to_api_file_trees :: "heap \<Rightarrow> addr list \<Rightarrow> FileTree list option" where
  "to_api_file_trees h nodes =
     (case nodes of
        [] \<Rightarrow> Some []
      | self # rest \<Rightarrow>
          Option.bind (to_api_file_trees h (map snd (children_dict (cells h self))))
            (\<lambda>children.
               Option.bind (to_api_file_trees h rest)
                 (\<lambda>others. Some (api_node (cells h self) children # others))))"

declare to_api_file_trees.simps [code]

definition to_api_file_tree :: "heap \<Rightarrow> addr \<Rightarrow> FileTree option" where
  "to_api_file_tree h self =
     Option.bind (to_api_file_trees h (map snd (children_dict (cells h self))))
       (\<lambda>children. Some (api_node (cells h self) children))"

section \<open>The SD card state machine\<close>

subsection \<open>The instruction queue\<close>

text \<open>
  Modelled from the spec: the helpers \<^verbatim>\<open>enqueue_matchable\<close>,
  \<^verbatim>\<open>enqueue_collecting\<close> and \<^verbatim>\<open>wait_for_instruction\<close> of
  \<^verbatim>\<open>old_buddy.input_output.serial_queue.helpers\<close> and the instruction handle they
  return. Enqueueing sends one command. Waiting blocks until the handle resolves or the
  updater stops running, and then the handle shows whether it was confirmed, the
  captured matches of a listing (here the string each match was made on) and what
  \<^verbatim>\<open>match(SD_PRESENT_REGEX)\<close> gives: no match, or the groups of the match. What the
  printer answers is outside the program: the queue carries the answers to come, one
  for each wait, and a wait with no answer left returns an unconfirmed handle.
\<close>

record instruction =
  is_confirmed :: bool
  captured_matches :: "string list"
  match_sd_present :: "string option list option"

record SerialQueue =
  sent :: "string list"
  waits :: nat
  answers :: "instruction list"

definition enqueue_matchable :: "SerialQueue \<Rightarrow> string \<Rightarrow> SerialQueue" where
  "enqueue_matchable q command = q\<lparr>sent := sent q @ [command]\<rparr>"

definition enqueue_collecting :: "SerialQueue \<Rightarrow> string \<Rightarrow> SerialQueue" where
  "enqueue_collecting q command = q\<lparr>sent := sent q @ [command]\<rparr>"

definition unresolved :: instruction where
  "unresolved = \<lparr>is_confirmed = False, captured_matches = [], match_sd_present = None\<rparr>"

definition wait_for_instruction :: "SerialQueue \<Rightarrow> instruction \<times> SerialQueue" where
  "wait_for_instruction q =
     (case answers q of
        [] \<Rightarrow> (unresolved, q\<lparr>waits := Suc (waits q)\<rparr>)
      | i # rest \<Rightarrow> (i, q\<lparr>waits := Suc (waits q), answers := rest\<rparr>))"

subsection \<open>The state of an SDCard object\<close>

datatype SDState = PRESENT | INITIALISING | UNSURE | ABSENT

text \<open>\<^verbatim>\<open>str\<close> of a member of the enumeration, as the f-string of the log prints it.\<close>

definition str :: "SDState \<Rightarrow> string" where
  "str st =
     (case st of
        PRESENT \<Rightarrow> ''SDState.PRESENT''
      | INITIALISING \<Rightarrow> ''SDState.INITIALISING''
      | UNSURE \<Rightarrow> ''SDState.UNSURE''
      | ABSENT \<Rightarrow> ''SDState.ABSENT'')"

text \<open>
  What the three signals have sent, in order: \<^verbatim>\<open>updated_signal\<close> with tree and
  sd_state, \<^verbatim>\<open>inserted_signal\<close> with root and files, \<^verbatim>\<open>ejected_signal\<close> with
  root.
\<close>

datatype signal =
  Updated FileTree SDState
| Inserted string FileTree
| Ejected string

text \<open>
  The attribute \<^verbatim>\<open>file_tree\<close> is not assigned by \<^verbatim>\<open>__init__\<close>: it is \<open>None\<close>
  until \<^verbatim>\<open>_update\<close> assigns it, and reading it before that raises AttributeError.
  The methods of the object run one at a time: the poller thread runs \<^verbatim>\<open>_update\<close>,
  the serial thread calls \<^verbatim>\<open>sd_inserted\<close>, and the model takes each call as a
  whole.
\<close>

record SDCard =
  objects :: heap
  serial_queue :: SerialQueue
  expecting_insertion :: bool
  sd_state :: SDState
  file_tree :: "addr option"
  signals :: "signal list"
  log :: "log_record list"

definition SDCard_init :: "heap \<Rightarrow> SerialQueue \<Rightarrow> SDCard" where
  "SDCard_init h q =
     \<lparr>objects = h, serial_queue = q, expecting_insertion = False, sd_state = UNSURE,
      file_tree = None, signals = [], log = []\<rparr>"

type_synonym 'a result = "((error + 'a) \<times> SDCard) option"

text \<open>Statement after statement: an exception or a call that does not return ends the
  sequence.\<close>

definition and_then :: "'a result \<Rightarrow> ('a \<Rightarrow> SDCard \<Rightarrow> 'b result) \<Rightarrow> 'b result" where
  "and_then m f =
     (case m of
        None \<Rightarrow> None
      | Some (Inl e, s) \<Rightarrow> Some (Inl e, s)
      | Some (Inr x, s) \<Rightarrow> f x s)"

definition debug :: "string \<Rightarrow> SDCard \<Rightarrow> SDCard" where
  "debug msg s = s\<lparr>log := log s @ [Debug msg]\<rparr>"

definition send :: "signal \<Rightarrow> SDCard \<Rightarrow> SDCard" where
  "send sig s = s\<lparr>signals := signals s @ [sig]\<rparr>"

subsection \<open>The methods\<close>

definition sd_state_changed :: "SDState \<Rightarrow> SDCard \<Rightarrow> unit result" where
  "sd_state_changed new_state s =
     (let s1 = debug (''SD state changed from '' @ str (sd_state s) @ '' to ''
                        @ str new_state) s
      in if sd_state s1 = INITIALISING \<and> new_state = PRESENT
         then (let s2 = debug ''SD Card inserted'' s1
               in case file_tree s2 of
                    None \<Rightarrow> Some (Inl AttributeError, s2)
                  | Some t \<Rightarrow>
                      (case to_api_file_tree (objects s2) t of
                         None \<Rightarrow> None
                       | Some files \<Rightarrow>
                           Some (Inr (), (send (Inserted ''/'' files) s2)
                                           \<lparr>sd_state := new_state\<rparr>)))
         else if sd_state s1 = PRESENT \<and> new_state \<in> {ABSENT, INITIALISING}
         then Some (Inr (), (send (Ejected ''/'') (debug ''SD Card removed'' s1))
                              \<lparr>sd_state := new_state\<rparr>)
         else Some (Inr (), s1\<lparr>sd_state := new_state\<rparr>))"

definition sd_inserted :: "SDCard \<Rightarrow> unit result" where
  "sd_inserted s =
     (if expecting_insertion s
      then Some (Inr (), s\<lparr>expecting_insertion := False\<rparr>)
      else sd_state_changed INITIALISING s)"

definition decide_presence :: "SDCard \<Rightarrow> unit result" where
  "decide_presence s =
     (let s1 = s\<lparr>expecting_insertion := True\<rparr>;
          s2 = s1\<lparr>serial_queue := enqueue_matchable (serial_queue s1) ''M21''\<rparr>;
          (instruction, q) = wait_for_instruction (serial_queue s2);
          s3 = s2\<lparr>serial_queue := q, expecting_insertion := False\<rparr>
      in if \<not> is_confirmed instruction
         then Some (Inr (), debug ''Failed determining the SD presence.'' s3)
         else (case match_sd_present instruction of
                 None \<Rightarrow> Some (Inl AttributeError, s3)
               | Some [] \<Rightarrow> Some (Inl IndexError, s3)
               | Some (g # _) \<Rightarrow>
                   if g \<noteq> None
                   then (if sd_state s3 \<noteq> PRESENT
                         then sd_state_changed PRESENT s3
                         else Some (Inr (), s3))
                   else sd_state_changed ABSENT s3))"

text \<open>The loop of \<^verbatim>\<open>construct_file_tree\<close> over the captured matches.\<close>

fun child_from_paths :: "heap \<Rightarrow> addr \<Rightarrow> string list \<Rightarrow> ((error + unit) \<times> heap) option" where
  "child_from_paths h tree [] = Some (Inr (), h)"
| "child_from_paths h tree (line # rest) =
     (case child_from_path h tree line of
        None \<Rightarrow> None
      | Some (Inl e, h1) \<Rightarrow> Some (Inl e, h1)
      | Some (Inr _, h1) \<Rightarrow> child_from_paths h1 tree rest)"

text \<open>
  \<^verbatim>\<open>construct_file_tree\<close> makes a new MOUNT object and, unless the card is ABSENT,
  asks for the listing and parses every captured line, lower-cased. The text of the
  closing debug record is not modelled.
\<close>

definition construct_file_tree :: "SDCard \<Rightarrow> addr result" where
  "construct_file_tree s =
     (case InternalFileTree_init (objects s) MOUNT ''SD Card'' (Some True) None of
        None \<Rightarrow> None
      | Some (tree, h1) \<Rightarrow>
          (let s1 = s\<lparr>objects := h1\<rparr>
           in if sd_state s1 = ABSENT then Some (Inr tree, s1)
              else (let s2 = s1\<lparr>serial_queue := enqueue_collecting (serial_queue s1) ''M20''\<rparr>;
                        (instruction, q) = wait_for_instruction (serial_queue s2);
                        s3 = s2\<lparr>serial_queue := q\<rparr>
                    in case child_from_paths (objects s3) tree
                              (map py_lower (captured_matches instruction)) of
                         None \<Rightarrow> None
                       | Some (Inl e, h2) \<Rightarrow> Some (Inl e, s3\<lparr>objects := h2\<rparr>)
                       | Some (Inr _, h2) \<Rightarrow> Some (Inr tree, s3\<lparr>objects := h2\<rparr>))))"

text \<open>\<^verbatim>\<open>_update\<close>, one cycle of the poller.\<close>

definition update' :: "SDCard \<Rightarrow> unit result" where
  "update' s =
     and_then (construct_file_tree s) (\<lambda>new_tree s1.
     and_then (if sd_state s1 \<in> {INITIALISING, UNSURE}
               then (if bool' (objects s1) new_tree
                     then sd_state_changed PRESENT s1
                     else decide_presence s1)
               else Some (Inr (), s1)) (\<lambda>_ s2.
     and_then (if \<not> bool' (objects s2) new_tree \<and> sd_state s2 = PRESENT
               then decide_presence s2
               else Some (Inr (), s2)) (\<lambda>_ s3.
       (let s4 = (if bool' (objects s3) new_tree \<and> sd_state s3 = ABSENT
                  then s3\<lparr>log := log s3 @
                         [Error ''ERROR: Sanity check failed. SD is not present, but we see files!'']\<rparr>
                  else s3);
            s5 = s4\<lparr>file_tree := Some new_tree\<rparr>
        in case to_api_file_tree (objects s5) new_tree of
             None \<Rightarrow> None
           | Some api_file_tree \<Rightarrow>
               Some (Inr (), send (Updated api_file_tree (sd_state s5)) s5)))))"

section \<open>Inputs of the examples\<close>

text \<open>A heap with no object yet.\<close>

definition empty_heap :: heap where
  "empty_heap = []"

text \<open>A queue that has sent nothing and will get the given answers.\<close>

definition queue :: "instruction list \<Rightarrow> SerialQueue" where
  "queue as = \<lparr>sent = [], waits = 0, answers = as\<rparr>"

text \<open>The answer to a listing request with the given captured lines, and the two
  confirmed answers to the probe: the first group of the match is set when the card is
  there and None when it is not.\<close>

definition listing :: "string list \<Rightarrow> instruction" where
  "listing ls = \<lparr>is_confirmed = True, captured_matches = ls, match_sd_present = None\<rparr>"

definition card_present :: instruction where
  "card_present =
     \<lparr>is_confirmed = True, captured_matches = [], match_sd_present = Some [Some ''ok'']\<rparr>"

definition card_absent :: instruction where
  "card_absent =
     \<lparr>is_confirmed = True, captured_matches = [], match_sd_present = Some [None]\<rparr>"

text \<open>What an observer sees of a call: whether it raised, the state of the card, the
  guard, the signals sent, the commands sent and the number of waits.\<close>

definition observe ::
  "'a result \<Rightarrow> ((error + 'a) \<times> SDState \<times> bool \<times> signal list \<times> string list \<times> nat) option" where
  "observe r =
     map_option (\<lambda>(x, s). (x, sd_state s, expecting_insertion s, signals s,
                             sent (serial_queue s), waits (serial_queue s))) r"

text \<open>The state a call leaves behind; a call that does not return leaves none, and
  the fresh card stands in.\<close>

definition after :: "'a result \<Rightarrow> SDCard" where
  "after r = (case r of None \<Rightarrow> SDCard_init empty_heap (queue []) | Some (_, s) \<Rightarrow> s)"

text \<open>A card seen with one file by the first cycle, which leaves it PRESENT.\<close>

definition present_card :: SDCard where
  "present_card = after (update' (SDCard_init empty_heap (queue [listing [''A.GCO 10'']])))"

text \<open>A fresh card in the middle of a probe: the guard is set.\<close>

definition probing_card :: SDCard where
  "probing_card = (SDCard_init empty_heap (queue []))\<lparr>expecting_insertion := True\<rparr>"

text \<open>
  A card found ABSENT by the first cycle (empty listing, probe answers that no card is
  there), then an insertion notification; the listing of the next cycle will show one
  file.
\<close>

definition absent_then_inserted :: SDCard where
  "absent_then_inserted =
     after (and_then
              (update' (SDCard_init empty_heap
                          (queue [listing [], card_absent, listing [''A.GCO 10''], card_present])))
              (\<lambda>_. sd_inserted))"

text \<open>A card found ABSENT by the first cycle: empty listing, and the probe answers that
  no card is there.\<close>

definition absent_card :: SDCard where
  "absent_card = after (update' (SDCard_init empty_heap (queue [listing [], card_absent])))"

text \<open>An insertion notification before the first cycle; the listing of the first cycle
  will be empty and the probe will answer that the card is there.\<close>

definition inserted_first :: SDCard where
  "inserted_first =
     after (sd_inserted (SDCard_init empty_heap (queue [listing [], card_present])))"

text \<open>Two trees built one after the other from two listings, in one heap.\<close>

definition two_trees :: "string list \<Rightarrow> string list \<Rightarrow> (addr \<times> addr \<times> heap) option" where
  "two_trees la lb =
     (case construct_file_tree (SDCard_init empty_heap (queue [listing la, listing lb])) of
        Some (Inr a, s1) \<Rightarrow>
          (case construct_file_tree s1 of
             Some (Inr b, s2) \<Rightarrow> Some (a, b, objects s2)
           | _ \<Rightarrow> None)
      | _ \<Rightarrow> None)"

section \<open>Properties\<close>

subsection \<open>Auxiliary facts\<close>

lemma cells_alloc_fresh: "cells (alloc h n) (fresh h) = n"
  by (simp add: cells_def alloc_def fresh_def)

lemma put_alloc_fresh: "put (alloc h n) (fresh h) n' = alloc h n'"
  by (simp add: put_def alloc_def fresh_def)

lemma get_full_path_root: "parent (cells h a) = None \<Longrightarrow> get_full_path h a = Some ''/''"
  by (simp add: get_full_path_def walk_up.simps)

lemma InternalFileTree_init_eq:
  "InternalFileTree_init h t p r sz =
     Some (fresh h,
           alloc h
              \<lparr>type = t, path = p, ro = r, size' = sz, m_date = None, m_time = None,
               descendants_set = [], children_dict = [], parent = None, full_path = ''/''\<rparr>)"
  by (simp add: InternalFileTree_init_def Let_def get_full_path_root cells_alloc_fresh
        put_alloc_fresh)

lemma and_then_Inr:
  assumes "and_then m f = Some (Inr y, s')"
  obtains x s1 where "m = Some (Inr x, s1)" and "f x s1 = Some (Inr y, s')"
  using assms by (auto simp: and_then_def split: option.splits sum.splits prod.splits)

lemma sd_state_changed_silent_or_ejected:
  assumes "\<not> (sd_state s = INITIALISING \<and> new_state = PRESENT)"
  shows "sd_state_changed new_state s =
           Some (Inr (),
             (if sd_state s = PRESENT \<and> (new_state = ABSENT \<or> new_state = INITIALISING)
              then send (Ejected ''/'') (debug ''SD Card removed''
                     (debug (''SD state changed from '' @ str (sd_state s) @ '' to ''
                        @ str new_state) s))
              else debug (''SD state changed from '' @ str (sd_state s) @ '' to ''
                        @ str new_state) s)\<lparr>sd_state := new_state\<rparr>)"
  using assms by (auto simp: sd_state_changed_def debug_def send_def Let_def)

lemma construct_file_tree_frame:
  assumes "construct_file_tree s = Some (r, s1)"
  shows "sd_state s1 = sd_state s \<and> signals s1 = signals s \<and> file_tree s1 = file_tree s
         \<and> expecting_insertion s1 = expecting_insertion s \<and> log s1 = log s"
  using assms
  by (auto simp: construct_file_tree_def InternalFileTree_init_eq Let_def
           split: if_splits option.splits sum.splits prod.splits)

lemma sd_state_changed_frame:
  assumes "sd_state_changed new_state s = Some (r, s1)"
  shows "objects s1 = objects s \<and> file_tree s1 = file_tree s
         \<and> serial_queue s1 = serial_queue s
         \<and> expecting_insertion s1 = expecting_insertion s"
  using assms
  by (auto simp: sd_state_changed_def debug_def send_def Let_def
           split: if_splits option.splits)

lemma decide_presence_frame:
  assumes "decide_presence s = Some (r, s1)"
  shows "objects s1 = objects s \<and> file_tree s1 = file_tree s"
  using assms
  by (auto simp: decide_presence_def Let_def debug_def
           split: if_splits option.splits list.splits prod.splits
           dest!: sd_state_changed_frame)

lemma construct_file_tree_empty_listing:
  assumes "sd_state s \<noteq> ABSENT" "answers (serial_queue s) = l # rest" "captured_matches l = []"
  shows "\<exists>s1. construct_file_tree s = Some (Inr (fresh (objects s)), s1)
           \<and> \<not> bool' (objects s1) (fresh (objects s))
           \<and> answers (serial_queue s1) = rest"
  using assms
  by (simp add: construct_file_tree_def InternalFileTree_init_eq Let_def
        wait_for_instruction_def enqueue_collecting_def cells_alloc_fresh bool'_def)

lemma decide_presence_present_before_first_tree:
  assumes "sd_state s = INITIALISING" "file_tree s = None"
    "answers (serial_queue s) = p # rest" "is_confirmed p"
    "match_sd_present p = Some (Some g # gs)"
  shows "\<exists>s'. decide_presence s = Some (Inl AttributeError, s')
           \<and> sd_state s' = INITIALISING \<and> signals s' = signals s \<and> file_tree s' = None"
  using assms
  by (simp add: decide_presence_def Let_def wait_for_instruction_def enqueue_matchable_def
        sd_state_changed_def debug_def)

text \<open>What the example cards look like.\<close>

lemma present_card_observed:
  "observe (Some (Inr (), present_card)) =
     Some (Inr (), PRESENT, False,
           [Updated (FileTree ''MOUNT'' ''SD Card'' (Some True) None None None
               (Some [FileTree ''FILE'' ''a.gco'' None (Some 10) None None None])) PRESENT],
           [''M20''], 1)"
  by code_simp

lemma absent_then_inserted_observed:
  "observe (Some (Inr (), absent_then_inserted)) =
     Some (Inr (), INITIALISING, False,
           [Updated (FileTree ''MOUNT'' ''SD Card'' (Some True) None None None None) ABSENT],
           [''M20'', ''M21''], 2)"
  by code_simp

lemma absent_card_observed:
  "observe (Some (Inr (), absent_card)) =
     Some (Inr (), ABSENT, False,
           [Updated (FileTree ''MOUNT'' ''SD Card'' (Some True) None None None None) ABSENT],
           [''M20'', ''M21''], 2)"
  by code_simp

lemma inserted_first_observed:
  "observe (Some (Inr (), inserted_first)) = Some (Inr (), INITIALISING, False, [], [], 0)"
  by code_simp

subsection \<open>The insertion notification\<close>

text \<open>
  C7. When \<^verbatim>\<open>sd_inserted\<close> runs with the guard \<^verbatim>\<open>expecting_insertion\<close> set, it
  returns, clears the guard and changes nothing else: the state stays, no signal is
  sent. When it runs with the guard clear, it returns and the state is INITIALISING,
  whatever it was before.
\<close>

theorem sd_inserted_guard:
  "(expecting_insertion s \<longrightarrow>
      sd_inserted s = Some (Inr (), s\<lparr>expecting_insertion := False\<rparr>))
   \<and> (\<not> expecting_insertion s \<longrightarrow>
      (\<exists>s'. sd_inserted s = Some (Inr (), s') \<and> sd_state s' = INITIALISING))"
  by (simp add: sd_inserted_def sd_state_changed_silent_or_ejected)

theorem sd_inserted_guard_witness:
  "expecting_insertion probing_card = True
   \<and> observe (sd_inserted probing_card) = Some (Inr (), UNSURE, False, [], [], 0)
   \<and> expecting_insertion present_card = False
   \<and> sd_state (after (sd_inserted present_card)) = INITIALISING"
proof -
  have guard: "expecting_insertion probing_card" and same: "sd_state probing_card = UNSURE"
    and quiet: "signals probing_card = []" "sent (serial_queue probing_card) = []"
      "waits (serial_queue probing_card) = 0"
    by (simp_all add: probing_card_def SDCard_init_def queue_def)
  have clear: "\<not> expecting_insertion present_card"
    using present_card_observed by (simp add: observe_def)
  from sd_inserted_guard [of probing_card] guard
  have "sd_inserted probing_card = Some (Inr (), probing_card\<lparr>expecting_insertion := False\<rparr>)"
    by simp
  then have one: "observe (sd_inserted probing_card) = Some (Inr (), UNSURE, False, [], [], 0)"
    using same quiet by (simp add: observe_def)
  from sd_inserted_guard [of present_card] clear
  obtain s' where "sd_inserted present_card = Some (Inr (), s')" "sd_state s' = INITIALISING"
    by blast
  then have two: "sd_state (after (sd_inserted present_card)) = INITIALISING"
    by (simp add: after_def)
  from guard one clear two show ?thesis by simp
qed

subsection \<open>The ejected signal\<close>

text \<open>
  C6. \<^verbatim>\<open>sd_state_changed\<close> sends \<^verbatim>\<open>ejected_signal\<close> with root \<open>''/''\<close> when the state
  is PRESENT and the new state is ABSENT or INITIALISING, and then it returns with the new
  state; on every other pair of states whatever it sends holds no ejected signal. In
  particular an insertion notification on a PRESENT card with the guard clear leaves the
  card INITIALISING and sends exactly one ejected signal.
\<close>

theorem ejected_only_from_present:
  "(sd_state s = PRESENT \<and> (new_state = ABSENT \<or> new_state = INITIALISING) \<longrightarrow>
      (\<exists>s'. sd_state_changed new_state s = Some (Inr (), s') \<and> sd_state s' = new_state
            \<and> signals s' = signals s @ [Ejected ''/'']))
   \<and> (\<not> (sd_state s = PRESENT \<and> (new_state = ABSENT \<or> new_state = INITIALISING)) \<longrightarrow>
        (\<forall>r s'. sd_state_changed new_state s = Some (r, s') \<longrightarrow>
           (\<exists>sent. signals s' = signals s @ sent \<and> (\<forall>root. Ejected root \<notin> set sent))))
   \<and> (sd_state s = PRESENT \<and> \<not> expecting_insertion s \<longrightarrow>
        (\<exists>s'. sd_inserted s = Some (Inr (), s') \<and> sd_state s' = INITIALISING
            \<and> signals s' = signals s @ [Ejected ''/'']))"
  by (auto simp: sd_state_changed_def sd_inserted_def debug_def send_def Let_def
           split: option.splits if_splits)

theorem ejected_only_from_present_witness:
  "sd_state present_card = PRESENT
   \<and> expecting_insertion present_card = False
   \<and> signals (after (sd_state_changed ABSENT present_card))
       = signals present_card @ [Ejected ''/'']
   \<and> sd_state (after (sd_inserted present_card)) = INITIALISING
   \<and> signals (after (sd_inserted present_card)) = signals present_card @ [Ejected ''/'']
   \<and> sd_state absent_then_inserted = INITIALISING
   \<and> sd_state_changed ABSENT absent_then_inserted
       = Some (Inr (), after (sd_state_changed ABSENT absent_then_inserted))
   \<and> signals (after (sd_state_changed ABSENT absent_then_inserted))
       = signals absent_then_inserted"
proof -
  have p: "sd_state present_card = PRESENT" "\<not> expecting_insertion present_card"
    using present_card_observed by (simp_all add: observe_def)
  have i: "sd_state absent_then_inserted = INITIALISING"
    using absent_then_inserted_observed by (simp add: observe_def)
  from ejected_only_from_present [of present_card ABSENT] p
  obtain s1 where "sd_state_changed ABSENT present_card = Some (Inr (), s1)"
    and "signals s1 = signals present_card @ [Ejected ''/'']"
    by blast
  then have a: "signals (after (sd_state_changed ABSENT present_card))
             = signals present_card @ [Ejected ''/'']"
    by (simp add: after_def)
  from ejected_only_from_present [of present_card ABSENT] p
  obtain s2 where "sd_inserted present_card = Some (Inr (), s2)"
    and "sd_state s2 = INITIALISING"
    and "signals s2 = signals present_card @ [Ejected ''/'']"
    by blast
  then have b: "sd_state (after (sd_inserted present_card)) = INITIALISING"
      "signals (after (sd_inserted present_card)) = signals present_card @ [Ejected ''/'']"
    by (simp_all add: after_def)
  have ret: "sd_state_changed ABSENT absent_then_inserted
       = Some (Inr (), after (sd_state_changed ABSENT absent_then_inserted))"
    using i by (simp add: sd_state_changed_silent_or_ejected after_def)
  from ejected_only_from_present [of absent_then_inserted ABSENT] i ret
  obtain sent where "signals (after (sd_state_changed ABSENT absent_then_inserted))
       = signals absent_then_inserted @ sent" and "\<forall>root. Ejected root \<notin> set sent"
    by (metis SDState.distinct(1))
  moreover have "signals (after (sd_state_changed ABSENT absent_then_inserted))
       = signals absent_then_inserted"
    using i by (simp add: sd_state_changed_silent_or_ejected after_def debug_def)
  ultimately show ?thesis using p i a b ret by simp
qed

subsection \<open>The presence probe\<close>

text \<open>
  C8. If the instruction of the probe is not confirmed when the wait ends (the answer
  is unconfirmed, or no answer came at all), \<^verbatim>\<open>decide_presence\<close> returns, the state
  is the one before the probe, whatever it was, no signal is sent, and the failure is
  written to the log.
\<close>

theorem decide_presence_unresolved:
  assumes "case answers (serial_queue s) of [] \<Rightarrow> True | i # _ \<Rightarrow> \<not> is_confirmed i"
  shows "\<exists>s'. decide_presence s = Some (Inr (), s')
           \<and> sd_state s' = sd_state s \<and> signals s' = signals s
           \<and> file_tree s' = file_tree s
           \<and> log s' = log s @ [Debug ''Failed determining the SD presence.'']"
  using assms
  by (auto simp: decide_presence_def wait_for_instruction_def enqueue_matchable_def
        unresolved_def debug_def Let_def split: list.splits)

theorem decide_presence_unresolved_witness:
  "answers (serial_queue present_card) = []
   \<and> sd_state present_card = PRESENT
   \<and> decide_presence present_card = Some (Inr (), after (decide_presence present_card))
   \<and> sd_state (after (decide_presence present_card)) = PRESENT
   \<and> signals (after (decide_presence present_card)) = signals present_card"
proof -
  have none: "answers (serial_queue present_card) = []"
    by code_simp
  have st: "sd_state present_card = PRESENT"
    using present_card_observed by (simp add: observe_def)
  from none have "case answers (serial_queue present_card) of [] \<Rightarrow> True
                  | i # _ \<Rightarrow> \<not> is_confirmed i"
    by simp
  from decide_presence_unresolved [OF this]
  obtain s' where "decide_presence present_card = Some (Inr (), s')"
    and "sd_state s' = sd_state present_card" and "signals s' = signals present_card"
    by blast
  with none st show ?thesis
    by (simp add: after_def)
qed

subsection \<open>Building the tree of an absent card\<close>

text \<open>
  C9. When the state is ABSENT, \<^verbatim>\<open>construct_file_tree\<close> returns a new object and
  leaves the instruction queue as it was: nothing is sent and nothing is waited for. The
  object is a bare MOUNT root: no children, an empty descendants set, hence false as a
  truth value.
\<close>

theorem construct_file_tree_absent:
  assumes "sd_state s = ABSENT"
  shows "\<exists>s'. construct_file_tree s = Some (Inr (fresh (objects s)), s')
           \<and> serial_queue s' = serial_queue s
           \<and> cells (objects s') (fresh (objects s)) =
               \<lparr>type = MOUNT, path = ''SD Card'', ro = Some True, size' = None,
                m_date = None, m_time = None, descendants_set = [], children_dict = [],
                parent = None, full_path = ''/''\<rparr>
           \<and> \<not> bool' (objects s') (fresh (objects s))"
  using assms
  by (simp add: construct_file_tree_def InternalFileTree_init_eq cells_alloc_fresh bool'_def)

theorem construct_file_tree_absent_witness:
  "sd_state absent_card = ABSENT
   \<and> construct_file_tree absent_card
       = Some (Inr (fresh (objects absent_card)), after (construct_file_tree absent_card))
   \<and> serial_queue (after (construct_file_tree absent_card)) = serial_queue absent_card
   \<and> sent (serial_queue absent_card) = [''M20'', ''M21'']
   \<and> descendants_set (cells (objects (after (construct_file_tree absent_card)))
         (fresh (objects absent_card))) = []"
proof -
  have st: "sd_state absent_card = ABSENT" and sent: "sent (serial_queue absent_card) = [''M20'', ''M21'']"
    using absent_card_observed by (simp_all add: observe_def)
  from construct_file_tree_absent [OF st]
  obtain s' where "construct_file_tree absent_card = Some (Inr (fresh (objects absent_card)), s')"
    and "serial_queue s' = serial_queue absent_card"
    and "\<not> bool' (objects s') (fresh (objects absent_card))"
    by blast
  with st sent show ?thesis
    by (simp add: after_def bool'_def)
qed

subsection \<open>The inserted signal\<close>

text \<open>
  A cycle builds its tree from objects it creates itself, so the walks along the parents
  and down the children end, whatever the heap held before: \<^verbatim>\<open>child_from_path\<close>
  returns on every line, raises exactly when \<open>line_error\<close> says so, and otherwise
  leaves a file among the descendants of the object it was called on.
\<close>

lemma overflow_bound_eq: "overflow_bound = 1000 * (2 ^ 1024 - 2 ^ 970)"
  by (simp add: overflow_bound_def)

lemma cells_put: "cells (put h a n) b = (if b = a \<and> a < length h then n else cells h b)"
  by (simp add: cells_def put_def)

lemma cells_alloc: "cells (alloc h n) b = (if b = length h then n else cells h b)"
  by (simp add: cells_def alloc_def nth_append)

lemma length_put: "length (put h a n) = length h"
  by (simp add: put_def)

lemma length_alloc: "length (alloc h n) = Suc (length h)"
  by (simp add: alloc_def)

lemma set_update_subset: "set (AList.update k v al) \<subseteq> insert (k, v) (set al)"
  by (induction al) auto

lemma grown_from_parentD:
  assumes "grown_from base h" "base \<le> a" "a < length h" "parent (cells h a) = Some p"
  shows "base \<le> p \<and> p < a"
proof -
  from assms(1)
  have "\<forall>a p. base \<le> a \<and> a < length h \<and> parent (cells h a) = Some p
          \<longrightarrow> base \<le> p \<and> p < a"
    unfolding grown_from_def by (rule conjunct1)
  with assms(2-) show ?thesis by blast
qed

lemma grown_from_childD:
  assumes "grown_from base h" "base \<le> a" "a < length h"
    "(k, c) \<in> set (children_dict (cells h a))"
  shows "a < c \<and> c < length h"
proof -
  from assms(1)
  have "\<forall>a k c. base \<le> a \<and> a < length h \<and> (k, c) \<in> set (children_dict (cells h a))
          \<longrightarrow> a < c \<and> c < length h"
    unfolding grown_from_def by (rule conjunct2)
  with assms(2-) show ?thesis by blast
qed

lemma grown_fromI:
  assumes "\<And>a p. base \<le> a \<Longrightarrow> a < length h \<Longrightarrow> parent (cells h a) = Some p
             \<Longrightarrow> base \<le> p \<and> p < a"
    and "\<And>a k c. base \<le> a \<Longrightarrow> a < length h \<Longrightarrow> (k, c) \<in> set (children_dict (cells h a))
             \<Longrightarrow> a < c \<and> c < length h"
  shows "grown_from base h"
  unfolding grown_from_def using assms by blast

lemma walk_up_returns:
  assumes "grown_from base h" "base \<le> a" "a < length h"
  shows "\<exists>r. walk_up h acc a = Some r"
  using assms(2,3)
proof (induction a arbitrary: acc rule: less_induct)
  case (less a)
  show ?case
  proof (cases "parent (cells h a)")
    case None
    then show ?thesis by (subst walk_up.simps) simp
  next
    case (Some p)
    with assms(1) less.prems have p: "base \<le> p \<and> p < a"
      by (intro grown_from_parentD)
    with less.prems have "p < length h" by simp
    with less.IH [of p] p obtain r
      where "walk_up h (acc @ [path (cells h a)]) p = Some r"
      by blast
    with Some show ?thesis by (subst walk_up.simps) simp
  qed
qed

lemma get_full_path_returns:
  assumes "grown_from base h" "base \<le> a" "a < length h"
  shows "\<exists>fp. get_full_path h a = Some fp"
  using walk_up_returns [OF assms, of "[]"] by (auto simp: get_full_path_def)

lemma grown_from_alloc:
  assumes "grown_from base h" "parent n = None" "children_dict n = []"
  shows "grown_from base (alloc h n)"
proof (rule grown_fromI)
  fix a p
  assume a: "base \<le> a" "a < length (alloc h n)" "parent (cells (alloc h n) a) = Some p"
  with assms(2) have "a \<noteq> length h"
    by (auto simp: cells_alloc)
  with a have "a < length h" "parent (cells h a) = Some p"
    by (simp_all add: cells_alloc length_alloc)
  with a assms(1) show "base \<le> p \<and> p < a"
    by (intro grown_from_parentD)
next
  fix a k c
  assume a: "base \<le> a" "a < length (alloc h n)"
    "(k, c) \<in> set (children_dict (cells (alloc h n) a))"
  with assms(3) have "a \<noteq> length h"
    by (auto simp: cells_alloc)
  with a have "a < length h" "(k, c) \<in> set (children_dict (cells h a))"
    by (simp_all add: cells_alloc length_alloc)
  with a assms(1) have "a < c \<and> c < length h"
    by (intro grown_from_childD)
  then show "a < c \<and> c < length (alloc h n)"
    by (simp add: length_alloc)
qed

lemma grown_from_put:
  assumes "grown_from base h" "parent n = parent (cells h a)"
    "children_dict n = children_dict (cells h a)"
  shows "grown_from base (put h a n)"
proof (rule grown_fromI)
  fix b p
  assume b: "base \<le> b" "b < length (put h a n)" "parent (cells (put h a n) b) = Some p"
  with assms(2) have "b < length h" "parent (cells h b) = Some p"
    by (simp_all add: cells_put length_put split: if_splits)
  with b assms(1) show "base \<le> p \<and> p < b"
    by (intro grown_from_parentD)
next
  fix b k c
  assume b: "base \<le> b" "b < length (put h a n)"
    "(k, c) \<in> set (children_dict (cells (put h a n) b))"
  with assms(3) have "b < length h" "(k, c) \<in> set (children_dict (cells h b))"
    by (simp_all add: cells_put length_put split: if_splits)
  with b assms(1) have "b < c \<and> c < length h"
    by (intro grown_from_childD)
  then show "b < c \<and> c < length (put h a n)"
    by (simp add: length_put)
qed


lemma add_child_fresh:
  assumes inv: "grown_from base h" and self: "base \<le> self" "self < length h"
    and n: "parent n = None" "children_dict n = []"
  shows "\<exists>h2. add_child (alloc h n) self (length h) = Some (length h, h2)
           \<and> grown_from base h2 \<and> length h2 = Suc (length h)
           \<and> map_of (children_dict (cells h2 self)) (path n) = Some (length h)
           \<and> (\<forall>a. descendants_set (cells h2 a) = descendants_set (cells (alloc h n) a))"
proof -
  define child where "child = length h"
  define h1 where "h1 = alloc h n"
  define kids where "kids = AList.update (path n) child (children_dict (cells h self))"
  define ha where "ha = put h1 self ((cells h self)\<lparr>children_dict := kids\<rparr>)"
  define hb where "hb = put ha child (n\<lparr>parent := Some self\<rparr>)"
  have ne: "self \<noteq> child" and lt: "self < child"
    using self by (simp_all add: child_def)
  have len1: "length h1 = Suc child" and lena: "length ha = Suc child"
    and lenb: "length hb = Suc child"
    by (simp_all add: h1_def ha_def hb_def child_def length_alloc length_put)
  have c1: "cells h1 b = (if b = child then n else cells h b)" for b
    by (simp add: h1_def child_def cells_alloc)
  have ca: "cells ha b = (if b = self then (cells h self)\<lparr>children_dict := kids\<rparr>
                          else cells h1 b)" for b
    using self by (simp add: ha_def cells_put len1 child_def)
  have cb: "cells hb b = (if b = child then n\<lparr>parent := Some self\<rparr> else cells ha b)" for b
    by (simp add: hb_def cells_put lena)
  have inv_b: "grown_from base hb"
  proof (rule grown_fromI)
    fix b p
    assume b: "base \<le> b" "b < length hb" "parent (cells hb b) = Some p"
    show "base \<le> p \<and> p < b"
    proof (cases "b = child")
      case True
      with b self lt show ?thesis by (simp add: cb)
    next
      case False
      with b have "b < length h" "parent (cells h b) = Some p"
        by (auto simp: cb ca c1 lenb child_def split: if_splits)
      with b inv show ?thesis by (intro grown_from_parentD)
    qed
  next
    fix b k c
    assume b: "base \<le> b" "b < length hb" "(k, c) \<in> set (children_dict (cells hb b))"
    show "b < c \<and> c < length hb"
    proof (cases "b = child")
      case True
      with b n show ?thesis by (simp add: cb)
    next
      case nc: False
      show ?thesis
      proof (cases "b = self")
        case True
        with b ne have "(k, c) \<in> set kids"
          by (simp add: cb ca)
        then have "(k, c) = (path n, child) \<or> (k, c) \<in> set (children_dict (cells h self))"
          using set_update_subset [of "path n" child "children_dict (cells h self)"]
          by (auto simp: kids_def)
        then show ?thesis
        proof
          assume "(k, c) = (path n, child)"
          with True lt show ?thesis by (simp add: lenb)
        next
          assume "(k, c) \<in> set (children_dict (cells h self))"
          with inv self have "self < c \<and> c < length h"
            by (intro grown_from_childD)
          with True show ?thesis by (simp add: lenb child_def)
        qed
      next
        case False
        with nc b have "b < length h" "(k, c) \<in> set (children_dict (cells h b))"
          by (auto simp: cb ca c1 lenb child_def)
        with b inv have "b < c \<and> c < length h"
          by (intro grown_from_childD)
        then show ?thesis by (simp add: lenb child_def)
      qed
    qed
  qed
  have "base \<le> child" "child < length hb"
    using self by (simp_all add: child_def lenb)
  with inv_b obtain fp where fp: "get_full_path hb child = Some fp"
    using get_full_path_returns by blast
  define h2 where "h2 = put hb child ((cells hb child)\<lparr>full_path := fp\<rparr>)"
  have inv2: "grown_from base h2"
    unfolding h2_def using inv_b by (rule grown_from_put) simp_all
  have len2: "length h2 = Suc (length h)"
    by (simp add: h2_def length_put lenb child_def)
  have c2: "cells h2 b = (if b = child then (cells hb child)\<lparr>full_path := fp\<rparr> else cells hb b)" for b
    by (simp add: h2_def cells_put lenb)
  have kids: "map_of (children_dict (cells h2 self)) (path n) = Some (length h)"
    using ne by (simp add: c2 cb ca kids_def update_conv' child_def)
  have desc: "descendants_set (cells h2 a) = descendants_set (cells (alloc h n) a)" for a
    by (simp add: c2 cb ca c1 h1_def [symmetric])
  have ha_eq: "put (alloc h n) self ((cells (alloc h n) self)
                 \<lparr>children_dict :=
                    AList.update (path (cells (alloc h n) (length h))) (length h)
                      (children_dict (cells (alloc h n) self))\<rparr>) = ha"
    using self by (simp add: ha_def h1_def kids_def child_def cells_alloc)
  have e1: "cells ha child = n"
    using ne by (simp add: ca c1)
  have sp: "set_parent ha child self = Some h2"
    by (simp add: set_parent_def Let_def e1 hb_def [symmetric] fp h2_def)
  have "add_child (alloc h n) self (length h) = Some (length h, h2)"
    unfolding add_child_def Let_def ha_eq
    using e1 n sp by (simp add: child_def)
  with inv2 len2 kids desc show ?thesis by blast
qed


lemma set_add_nonempty: "set_add h S x \<noteq> []"
  by (cases S) (simp_all add: set_add_def)

lemma descendants_add_props:
  assumes "grown_from base h" "self < length h"
  shows "grown_from base (descendants_add h self x)"
    and "length (descendants_add h self x) = length h"
    and "descendants_set (cells (descendants_add h self x) self) \<noteq> []"
    and "descendants_set (cells h a) \<noteq> []
           \<Longrightarrow> descendants_set (cells (descendants_add h self x) a) \<noteq> []"
proof -
  show "grown_from base (descendants_add h self x)"
    unfolding descendants_add_def using assms(1) by (rule grown_from_put) simp_all
  show "length (descendants_add h self x) = length h"
    by (simp add: descendants_add_def length_put)
  show "descendants_set (cells (descendants_add h self x) self) \<noteq> []"
    using assms(2) by (simp add: descendants_add_def cells_put set_add_nonempty)
  show "descendants_set (cells h a) \<noteq> []
           \<Longrightarrow> descendants_set (cells (descendants_add h self x) a) \<noteq> []"
    by (simp add: descendants_add_def cells_put set_add_nonempty)
qed

lemma cells_length: "cells h (length h) = blank"
  by (simp add: cells_def)

lemma make_directory:
  assumes inv: "grown_from base h" and self: "base \<le> self" "self < length h"
  shows "\<exists>h2 c.
           (if map_of (children_dict (cells h self)) pth = None
            then (case InternalFileTree_init h DIR pth None None of
                    None \<Rightarrow> None
                  | Some (child, h1) \<Rightarrow> map_option snd (add_child h1 self child))
            else Some h) = Some h2
           \<and> grown_from base h2 \<and> length h \<le> length h2
           \<and> map_of (children_dict (cells h2 self)) pth = Some c \<and> self < c \<and> c < length h2
           \<and> (\<forall>a. descendants_set (cells h2 a) = descendants_set (cells h a))"
proof (cases "map_of (children_dict (cells h self)) pth")
  case None
  define n where "n = \<lparr>type = DIR, path = pth, ro = None, size' = None, m_date = None,
                        m_time = None, descendants_set = [], children_dict = [],
                        parent = None, full_path = ''/''\<rparr>"
  have init: "InternalFileTree_init h DIR pth None None = Some (length h, alloc h n)"
    by (simp add: InternalFileTree_init_eq n_def fresh_def)
  from add_child_fresh [OF inv self, of n] obtain h2
    where ac: "add_child (alloc h n) self (length h) = Some (length h, h2)"
      and inv2: "grown_from base h2" and len2: "length h2 = Suc (length h)"
      and look: "map_of (children_dict (cells h2 self)) (path n) = Some (length h)"
      and desc: "\<forall>a. descendants_set (cells h2 a) = descendants_set (cells (alloc h n) a)"
    by (auto simp: n_def)
  have "descendants_set (cells (alloc h n) a) = descendants_set (cells h a)" for a
    by (simp add: cells_alloc cells_length n_def blank_def)
  with desc have desc': "\<forall>a. descendants_set (cells h2 a) = descendants_set (cells h a)"
    by simp
  from None init ac
  have "(if map_of (children_dict (cells h self)) pth = None
            then (case InternalFileTree_init h DIR pth None None of
                    None \<Rightarrow> None
                  | Some (child, h1) \<Rightarrow> map_option snd (add_child h1 self child))
            else Some h) = Some h2"
    by simp
  moreover from look have "map_of (children_dict (cells h2 self)) pth = Some (length h)"
    by (simp add: n_def)
  ultimately show ?thesis
    using inv2 len2 self desc' by (intro exI [of _ h2] exI [of _ "length h"]) simp
next
  case (Some c)
  then have "(pth, c) \<in> set (children_dict (cells h self))"
    by (rule map_of_SomeD)
  with inv self have "self < c \<and> c < length h"
    by (intro grown_from_childD)
  with Some inv show ?thesis
    by (intro exI [of _ h] exI [of _ c]) simp
qed

lemma make_file:
  assumes inv: "grown_from base h" and self: "base \<le> self" "self < length h"
  shows "\<exists>r h'.
           (case InternalFileTree_init h FILE p None (Some sz) of
              None \<Rightarrow> None
            | Some (child, h1) \<Rightarrow>
                if kb_overflows sz then Some (Inl OverflowError, h1)
                else (case add_child h1 self child of
                        None \<Rightarrow> None
                      | Some (added_child, h2) \<Rightarrow>
                          Some (Inr added_child, descendants_add h2 self added_child)))
             = Some (r, h')
           \<and> grown_from base h' \<and> length h \<le> length h'
           \<and> (\<forall>a. descendants_set (cells h a) \<noteq> [] \<longrightarrow> descendants_set (cells h' a) \<noteq> [])
           \<and> (if kb_overflows sz then r = Inl OverflowError
                else (\<exists>c. r = Inr c) \<and> descendants_set (cells h' self) \<noteq> [])"
proof -
  define n where "n = \<lparr>type = FILE, path = p, ro = None, size' = Some sz, m_date = None,
                        m_time = None, descendants_set = [], children_dict = [],
                        parent = None, full_path = ''/''\<rparr>"
  have init: "InternalFileTree_init h FILE p None (Some sz) = Some (length h, alloc h n)"
    by (simp add: InternalFileTree_init_eq n_def fresh_def)
  have same: "descendants_set (cells (alloc h n) a) = descendants_set (cells h a)" for a
    by (simp add: cells_alloc cells_length n_def blank_def)
  show ?thesis
  proof (cases "kb_overflows sz")
    case True
    have "grown_from base (alloc h n)"
      using inv by (rule grown_from_alloc) (simp_all add: n_def)
    with True init same show ?thesis
      by (intro exI [of _ "Inl OverflowError"] exI [of _ "alloc h n"])
         (simp add: length_alloc)
  next
    case False
    from add_child_fresh [OF inv self, of n] obtain h2
      where ac: "add_child (alloc h n) self (length h) = Some (length h, h2)"
        and inv2: "grown_from base h2" and len2: "length h2 = Suc (length h)"
        and desc: "\<forall>a. descendants_set (cells h2 a) = descendants_set (cells (alloc h n) a)"
      by (auto simp: n_def)
    from self len2 have self2: "self < length h2" by simp
    note da = descendants_add_props [OF inv2 self2, where x = "length h"]
    from desc same have "descendants_set (cells h a) \<noteq> []
            \<Longrightarrow> descendants_set (cells (descendants_add h2 self (length h)) a) \<noteq> []" for a
      using da(4) [where a = a] by simp
    with False init ac da(1,2,3) len2 show ?thesis
      by (intro exI [of _ "Inr (length h)"] exI [of _ "descendants_add h2 self (length h)"])
         simp
  qed
qed


lemma case_two:
  "(case xs of [a, b] \<Rightarrow> f a b | _ \<Rightarrow> g)
     = (if length xs = 2 then f (hd xs) (hd (tl xs)) else g)"
  by (simp split: list.splits)

lemma child_from_path_returns:
  assumes "grown_from base h" "base \<le> self" "self < length h"
  shows "\<exists>r h'. child_from_path h self line = Some (r, h')
           \<and> grown_from base h' \<and> length h \<le> length h'
           \<and> (\<forall>a. descendants_set (cells h a) \<noteq> [] \<longrightarrow> descendants_set (cells h' a) \<noteq> [])
           \<and> (case r of
                 Inl e \<Rightarrow> line_error line = Some e
               | Inr c \<Rightarrow> line_error line = None \<and> descendants_set (cells h' self) \<noteq> [])"
  using assms
proof (induction h self line rule: child_from_path.induct)
  case (1 h self line)
  note inv = "1.prems"(1) and self = "1.prems"(2,3)
  obtain pth rest where sp: "py_split1 CHR ''/'' (py_strip CHR ''/'' line) = (pth, rest)"
    by (cases "py_split1 CHR ''/'' (py_strip CHR ''/'' line)")
  show ?case
  proof (cases rest)
    case None
    let ?parts = "py_split CHR '' '' pth"
    have cfp: "child_from_path h self line
                 = (if length ?parts = 2
                    then (case py_int (hd (tl ?parts)) of
                            Inl e \<Rightarrow> Some (Inl e, h)
                          | Inr sz \<Rightarrow>
                              (case InternalFileTree_init h FILE (hd ?parts) None (Some sz) of
                           None \<Rightarrow> None
                         | Some (child, h1) \<Rightarrow>
                             if kb_overflows sz then Some (Inl OverflowError, h1)
                             else (case add_child h1 self child of
                                     None \<Rightarrow> None
                                   | Some (added_child, h2) \<Rightarrow>
                                       Some (Inr added_child,
                                             descendants_add h2 self added_child))))
                    else Some (Inl ValueError, h))"
      by (simp add: child_from_path.simps [of h self line] sp None case_two)
    have le: "line_error line
                = (if length ?parts = 2
                   then (case py_int (hd (tl ?parts)) of
                           Inl e \<Rightarrow> Some e
                         | Inr sz \<Rightarrow> if kb_overflows sz then Some OverflowError else None)
                   else Some ValueError)"
      by (simp add: line_error.simps [of line] sp None case_two)
    show ?thesis
    proof (cases "length ?parts = 2")
      case False
      with cfp le inv show ?thesis by simp
    next
      case True
      show ?thesis
      proof (cases "py_int (hd (tl ?parts))")
        case (Inl e)
        with True cfp le inv show ?thesis by simp
      next
        case (Inr sz)
        from make_file [OF inv self, where p = "hd ?parts" and sz = sz] obtain r h'
          where run: "(case InternalFileTree_init h FILE (hd ?parts) None (Some sz) of
                           None \<Rightarrow> None
                         | Some (child, h1) \<Rightarrow>
                             if kb_overflows sz then Some (Inl OverflowError, h1)
                             else (case add_child h1 self child of
                                     None \<Rightarrow> None
                                   | Some (added_child, h2) \<Rightarrow>
                                       Some (Inr added_child,
                                             descendants_add h2 self added_child))) = Some (r, h')"
            and inv': "grown_from base h'" and len': "length h \<le> length h'"
            and mono: "\<forall>a. descendants_set (cells h a) \<noteq> []
                         \<longrightarrow> descendants_set (cells h' a) \<noteq> []"
            and res: "if kb_overflows sz then r = Inl OverflowError
                      else (\<exists>c. r = Inr c) \<and> descendants_set (cells h' self) \<noteq> []"
          by blast
        from True Inr cfp run have "child_from_path h self line = Some (r, h')"
          by simp
        moreover from True Inr le res
        have "case r of
                 Inl e \<Rightarrow> line_error line = Some e
               | Inr c \<Rightarrow> line_error line = None \<and> descendants_set (cells h' self) \<noteq> []"
          by (auto split: if_splits)
        ultimately show ?thesis
          using inv' len' mono by blast
      qed
    qed
  next
    case (Some rst)
    from make_directory [OF inv self, where pth = pth] obtain h2 c
      where mk: "(if map_of (children_dict (cells h self)) pth = None
            then (case InternalFileTree_init h DIR pth None None of
                    None \<Rightarrow> None
                  | Some (child, h1) \<Rightarrow> map_option snd (add_child h1 self child))
            else Some h) = Some h2"
        and inv2: "grown_from base h2" and len2: "length h \<le> length h2"
        and look: "map_of (children_dict (cells h2 self)) pth = Some c"
        and c: "self < c" "c < length h2"
        and desc2: "\<forall>a. descendants_set (cells h2 a) = descendants_set (cells h a)"
      by blast
    from self c have "base \<le> c" by simp
    with "1.IH" [OF refl sp [symmetric] Some mk look inv2 _ c(2)] obtain r3 h3
      where rec: "child_from_path h2 c rst = Some (r3, h3)"
        and inv3: "grown_from base h3" and len3: "length h2 \<le> length h3"
        and mono3: "\<forall>a. descendants_set (cells h2 a) \<noteq> []
                      \<longrightarrow> descendants_set (cells h3 a) \<noteq> []"
        and res3: "case r3 of
                     Inl e \<Rightarrow> line_error rst = Some e
                   | Inr c' \<Rightarrow> line_error rst = None \<and> descendants_set (cells h3 c) \<noteq> []"
      by blast
    have cfp: "child_from_path h self line
                 = (case r3 of
                      Inl e \<Rightarrow> Some (Inl e, h3)
                    | Inr added_child \<Rightarrow>
                        Some (Inr added_child, descendants_add h3 self added_child))"
      by (subst child_from_path.simps) (simp add: sp Some mk look rec)
    have le: "line_error line = line_error rst"
      by (subst line_error.simps) (simp add: sp Some)
    from self len2 len3 have self3: "self < length h3" by simp
    show ?thesis
    proof (cases r3)
      case (Inl e)
      with cfp le res3 inv3 len2 len3 mono3 desc2 show ?thesis
        by (intro exI [of _ "Inl e"] exI [of _ h3]) simp
    next
      case (Inr added)
      note da = descendants_add_props [OF inv3 self3, where x = added]
      have "descendants_set (cells h a) \<noteq> []
              \<Longrightarrow> descendants_set (cells (descendants_add h3 self added) a) \<noteq> []" for a
        using da(4) [where a = a] mono3 desc2 by simp
      with Inr cfp le res3 da(1,2,3) len2 len3 show ?thesis
        by (intro exI [of _ "Inr added"] exI [of _ "descendants_add h3 self added"]) simp
    qed
  qed
qed


lemma child_from_paths_returns:
  assumes "grown_from base h" "base \<le> tree" "tree < length h"
  shows "\<exists>r h'. child_from_paths h tree lines = Some (r, h')
           \<and> grown_from base h' \<and> length h \<le> length h'
           \<and> (descendants_set (cells h tree) \<noteq> [] \<longrightarrow> descendants_set (cells h' tree) \<noteq> [])
           \<and> (if list_all (\<lambda>line. line_error line = None) lines
                then r = Inr () \<and> (lines \<noteq> [] \<longrightarrow> descendants_set (cells h' tree) \<noteq> [])
                else (\<exists>e. r = Inl e))"
  using assms
proof (induction lines arbitrary: h)
  case Nil
  then show ?case by simp
next
  case (Cons line lines)
  from child_from_path_returns [OF Cons.prems, where line = line] obtain r1 h1
    where first: "child_from_path h tree line = Some (r1, h1)"
      and inv1: "grown_from base h1" and len1: "length h \<le> length h1"
      and mono1: "\<forall>a. descendants_set (cells h a) \<noteq> []
                     \<longrightarrow> descendants_set (cells h1 a) \<noteq> []"
      and res1: "case r1 of
                   Inl e \<Rightarrow> line_error line = Some e
                 | Inr c \<Rightarrow> line_error line = None \<and> descendants_set (cells h1 tree) \<noteq> []"
    by blast
  show ?case
  proof (cases r1)
    case (Inl e)
    with first res1 inv1 len1 mono1 show ?thesis
      by (intro exI [of _ "Inl e"] exI [of _ h1]) simp
  next
    case (Inr c)
    from Cons.prems len1 have tree1: "tree < length h1" by simp
    from Cons.IH [OF inv1 Cons.prems(2) tree1] obtain r2 h2
      where rest: "child_from_paths h1 tree lines = Some (r2, h2)"
        and inv2: "grown_from base h2" and len2: "length h1 \<le> length h2"
        and mono2: "descendants_set (cells h1 tree) \<noteq> []
                      \<longrightarrow> descendants_set (cells h2 tree) \<noteq> []"
        and res2: "if list_all (\<lambda>line. line_error line = None) lines
                   then r2 = Inr () \<and> (lines \<noteq> [] \<longrightarrow> descendants_set (cells h2 tree) \<noteq> [])
                   else (\<exists>e. r2 = Inl e)"
      by blast
    from Inr res1 have ok: "line_error line = None"
      and ne: "descendants_set (cells h1 tree) \<noteq> []"
      by simp_all
    from Inr first rest have "child_from_paths h tree (line # lines) = Some (r2, h2)"
      by simp
    with inv2 len1 len2 mono2 ne ok res2 show ?thesis
      by (intro exI [of _ r2] exI [of _ h2]) (simp split: if_splits)
  qed
qed

lemma to_api_file_trees_returns:
  assumes inv: "grown_from base h"
  shows "base \<le> k \<Longrightarrow> \<forall>x\<in>set nodes. k \<le> x \<and> x < length h
           \<Longrightarrow> \<exists>r. to_api_file_trees h nodes = Some r"
proof (induction "length h - k" arbitrary: k nodes rule: less_induct)
  case less
  from less.prems(2) show ?case
  proof (induction nodes)
    case Nil
    show ?case by (subst to_api_file_trees.simps) simp
  next
    case (Cons x rest)
    then have x: "k \<le> x" "x < length h" by simp_all
    let ?kids = "map snd (children_dict (cells h x))"
    have "\<forall>c\<in>set ?kids. Suc k \<le> c \<and> c < length h"
    proof
      fix c
      assume "c \<in> set ?kids"
      then obtain key where "(key, c) \<in> set (children_dict (cells h x))"
        by auto
      moreover from less.prems(1) x have "base \<le> x" by simp
      ultimately have "x < c \<and> c < length h"
        using inv x(2) by (intro grown_from_childD [of base h x key c])
      with x show "Suc k \<le> c \<and> c < length h" by simp
    qed
    moreover from x have "length h - Suc k < length h - k" by simp
    moreover from less.prems(1) have "base \<le> Suc k" by simp
    ultimately obtain cs where cs: "to_api_file_trees h ?kids = Some cs"
      using less.hyps [of "Suc k" ?kids] by blast
    from Cons obtain others where others: "to_api_file_trees h rest = Some others"
      by auto
    show ?case
      by (subst to_api_file_trees.simps) (simp add: cs others)
  qed
qed

lemma to_api_file_tree_returns:
  assumes "grown_from base h" "base \<le> a" "a < length h"
  shows "\<exists>t. to_api_file_tree h a = Some t"
proof -
  have "\<exists>r. to_api_file_trees h [a] = Some r"
    using assms by (intro to_api_file_trees_returns [of base h a]) simp_all
  then obtain r where "to_api_file_trees h [a] = Some r" ..
  then obtain cs where "to_api_file_trees h (map snd (children_dict (cells h a))) = Some cs"
    by (subst (asm) to_api_file_trees.simps) (auto split: Option.bind_splits)
  then show ?thesis
    by (simp add: to_api_file_tree_def)
qed

lemma grown_from_fresh:
  assumes "parent n = None" "children_dict n = []"
  shows "grown_from (length h) (alloc h n)"
proof (rule grown_fromI)
  fix a p
  assume "length h \<le> a" "a < length (alloc h n)" "parent (cells (alloc h n) a) = Some p"
  with assms(1) show "length h \<le> p \<and> p < a"
    by (simp add: length_alloc cells_alloc split: if_splits)
next
  fix a k c
  assume "length h \<le> a" "a < length (alloc h n)"
    "(k, c) \<in> set (children_dict (cells (alloc h n) a))"
  with assms(2) show "a < c \<and> c < length (alloc h n)"
    by (simp add: length_alloc cells_alloc split: if_splits)
qed


lemma construct_file_tree_listing:
  assumes "sd_state s \<noteq> ABSENT" "answers (serial_queue s) = l # rest"
  shows "\<exists>r s1. construct_file_tree s = Some (r, s1)
           \<and> sd_state s1 = sd_state s \<and> signals s1 = signals s
           \<and> (if list_all (\<lambda>line. line_error line = None) (map py_lower (captured_matches l))
                then r = Inr (length (objects s))
                     \<and> grown_from (length (objects s)) (objects s1)
                     \<and> length (objects s) < length (objects s1)
                     \<and> (captured_matches l \<noteq> [] \<longrightarrow> bool' (objects s1) (length (objects s)))
                else (\<exists>e. r = Inl e))"
proof -
  define root where "root = \<lparr>type = MOUNT, path = ''SD Card'', ro = Some True, size' = None,
                             m_date = None, m_time = None, descendants_set = [],
                             children_dict = [], parent = None, full_path = ''/''\<rparr>"
  define h1 where "h1 = alloc (objects s) root"
  define tree where "tree = length (objects s)"
  define lines where "lines = map py_lower (captured_matches l)"
  have inv1: "grown_from tree h1"
    unfolding tree_def h1_def by (rule grown_from_fresh) (simp_all add: root_def)
  have tree1: "tree < length h1"
    by (simp add: tree_def h1_def length_alloc)
  from child_from_paths_returns [OF inv1 order_refl tree1, where lines = lines] obtain r h'
    where run: "child_from_paths h1 tree lines = Some (r, h')"
      and inv': "grown_from tree h'" and len': "length h1 \<le> length h'"
      and res: "if list_all (\<lambda>line. line_error line = None) lines
                then r = Inr () \<and> (lines \<noteq> [] \<longrightarrow> descendants_set (cells h' tree) \<noteq> [])
                else (\<exists>e. r = Inl e)"
    by blast
  define s3 where "s3 = s\<lparr>objects := h1,
                         serial_queue := (serial_queue s)\<lparr>sent := sent (serial_queue s) @ [''M20''],
                                          waits := Suc (waits (serial_queue s)), answers := rest\<rparr>\<rparr>"
  have cft: "construct_file_tree s
               = (case r of Inl e \<Rightarrow> Some (Inl e, s3\<lparr>objects := h'\<rparr>)
                  | Inr u \<Rightarrow> Some (Inr tree, s3\<lparr>objects := h'\<rparr>))"
    using assms run
    by (simp add: construct_file_tree_def InternalFileTree_init_eq root_def [symmetric]
          h1_def [symmetric] fresh_def tree_def [symmetric] Let_def wait_for_instruction_def
          enqueue_collecting_def lines_def [symmetric] s3_def split: sum.splits)
  show ?thesis
  proof (cases "list_all (\<lambda>line. line_error line = None) lines")
    case True
    with res have r: "r = Inr ()"
      and ne: "lines \<noteq> [] \<longrightarrow> descendants_set (cells h' tree) \<noteq> []"
      by simp_all
    from tree1 len' have "tree < length h'" by simp
    with True r ne inv' cft show ?thesis
      by (intro exI [of _ "Inr tree"] exI [of _ "s3\<lparr>objects := h'\<rparr>"])
         (simp add: s3_def lines_def tree_def bool'_def)
  next
    case False
    with res obtain e where "r = Inl e" by auto
    with False cft show ?thesis
      by (intro exI [of _ "Inl e"] exI [of _ "s3\<lparr>objects := h'\<rparr>"])
         (simp add: s3_def lines_def)
  qed
qed

lemma first_cycle_from_unsure_listing:
  assumes st: "sd_state s = UNSURE" and q: "answers (serial_queue s) = l # rest"
    and ne: "captured_matches l \<noteq> []"
  shows "\<exists>r s'. update' s = Some (r, s')
           \<and> (if list_all (\<lambda>line. line_error line = None) (map py_lower (captured_matches l))
                then r = Inr () \<and> sd_state s' = PRESENT
                     \<and> (\<exists>api. signals s' = signals s @ [Updated api PRESENT])
                else (\<exists>e. r = Inl e) \<and> sd_state s' = UNSURE \<and> signals s' = signals s)"
proof -
  from st have "sd_state s \<noteq> ABSENT" by simp
  from construct_file_tree_listing [OF this q] obtain r1 s1
    where c: "construct_file_tree s = Some (r1, s1)"
      and st1: "sd_state s1 = sd_state s" and sig1: "signals s1 = signals s"
      and res: "if list_all (\<lambda>line. line_error line = None) (map py_lower (captured_matches l))
                then r1 = Inr (length (objects s))
                     \<and> grown_from (length (objects s)) (objects s1)
                     \<and> length (objects s) < length (objects s1)
                     \<and> (captured_matches l \<noteq> [] \<longrightarrow> bool' (objects s1) (length (objects s)))
                else (\<exists>e. r1 = Inl e)"
    by blast
  show ?thesis
  proof (cases "list_all (\<lambda>line. line_error line = None) (map py_lower (captured_matches l))")
    case False
    with res obtain e where "r1 = Inl e" by auto
    with c have "update' s = Some (Inl e, s1)"
      by (simp add: update'_def and_then_def)
    with False st st1 sig1 show ?thesis
      by (intro exI [of _ "Inl e"] exI [of _ s1]) simp
  next
    case True
    define tree where "tree = length (objects s)"
    from True res ne have r1: "r1 = Inr tree" and inv: "grown_from tree (objects s1)"
      and lt: "tree < length (objects s1)" and files: "bool' (objects s1) tree"
      by (simp_all add: tree_def)
    from to_api_file_tree_returns [OF inv order_refl lt] obtain api
      where api: "to_api_file_tree (objects s1) tree = Some api"
      by blast
    define s2 where "s2 = (debug (''SD state changed from '' @ str UNSURE @ '' to ''
                                   @ str PRESENT) s1)\<lparr>sd_state := PRESENT\<rparr>"
    have ch: "sd_state_changed PRESENT s1 = Some (Inr (), s2)"
      using st st1 by (simp add: sd_state_changed_silent_or_ejected s2_def)
    have s2: "objects s2 = objects s1" "sd_state s2 = PRESENT" "signals s2 = signals s1"
      by (simp_all add: s2_def debug_def)
    have "update' s = Some (Inr (), send (Updated api PRESENT) (s2\<lparr>file_tree := Some tree\<rparr>))"
      using c r1 st st1 files ch s2 api
      by (simp add: update'_def and_then_def Let_def)
    with True s2 sig1 show ?thesis
      by (intro exI [of _ "Inr ()"]
            exI [of _ "send (Updated api PRESENT) (s2\<lparr>file_tree := Some tree\<rparr>)"])
         (simp add: send_def)
  qed
qed

text \<open>
  C5. \<^verbatim>\<open>sd_state_changed\<close> sends \<^verbatim>\<open>inserted_signal\<close> only when the state is
  INITIALISING and the new state is PRESENT: there, a call that returns has sent the
  signal with root \<open>''/''\<close> and left the state PRESENT, a call that raises has sent
  nothing and left the state INITIALISING, and a stored tree that converts makes the call
  return. On every other pair of states the call returns with the new state and whatever
  it sends holds no inserted signal. In particular a cycle that starts in UNSURE and
  whose listing captured at least one line always ends: when no line raises, it returns
  with the state PRESENT and has sent the updated signal and nothing else; when a line
  raises, the cycle raises, the state is still UNSURE and nothing was sent.
\<close>

theorem inserted_only_on_initialising_to_present:
  "(sd_state s = INITIALISING \<and> new_state = PRESENT \<longrightarrow>
      (\<forall>s'. sd_state_changed new_state s = Some (Inr (), s') \<longrightarrow>
          sd_state s' = PRESENT \<and> (\<exists>files. signals s' = signals s @ [Inserted ''/'' files]))
      \<and> (\<forall>e s'. sd_state_changed new_state s = Some (Inl e, s') \<longrightarrow>
          sd_state s' = INITIALISING \<and> signals s' = signals s)
      \<and> (\<forall>t files. file_tree s = Some t \<and> to_api_file_tree (objects s) t = Some files \<longrightarrow>
          (\<exists>s'. sd_state_changed new_state s = Some (Inr (), s')
               \<and> signals s' = signals s @ [Inserted ''/'' files])))
   \<and> (\<not> (sd_state s = INITIALISING \<and> new_state = PRESENT) \<longrightarrow>
        (\<exists>s' sent. sd_state_changed new_state s = Some (Inr (), s') \<and> sd_state s' = new_state
           \<and> signals s' = signals s @ sent
           \<and> (\<forall>root files. Inserted root files \<notin> set sent)))
   \<and> (sd_state s = UNSURE \<and> answers (serial_queue s) = l # rest \<and> captured_matches l \<noteq> []
        \<longrightarrow>
        (\<exists>r s1. update' s = Some (r, s1)
           \<and> (if list_all (\<lambda>line. line_error line = None) (map py_lower (captured_matches l))
                then r = Inr () \<and> sd_state s1 = PRESENT
                     \<and> (\<exists>api. signals s1 = signals s @ [Updated api PRESENT])
                else (\<exists>e. r = Inl e) \<and> sd_state s1 = UNSURE \<and> signals s1 = signals s)))"
proof (intro conjI)
  show "sd_state s = INITIALISING \<and> new_state = PRESENT \<longrightarrow>
      (\<forall>s'. sd_state_changed new_state s = Some (Inr (), s') \<longrightarrow>
          sd_state s' = PRESENT \<and> (\<exists>files. signals s' = signals s @ [Inserted ''/'' files]))
      \<and> (\<forall>e s'. sd_state_changed new_state s = Some (Inl e, s') \<longrightarrow>
          sd_state s' = INITIALISING \<and> signals s' = signals s)
      \<and> (\<forall>t files. file_tree s = Some t \<and> to_api_file_tree (objects s) t = Some files \<longrightarrow>
          (\<exists>s'. sd_state_changed new_state s = Some (Inr (), s')
               \<and> signals s' = signals s @ [Inserted ''/'' files]))"
    by (auto simp: sd_state_changed_def debug_def send_def Let_def split: option.splits)
next
  show "\<not> (sd_state s = INITIALISING \<and> new_state = PRESENT) \<longrightarrow>
        (\<exists>s' sent. sd_state_changed new_state s = Some (Inr (), s') \<and> sd_state s' = new_state
           \<and> signals s' = signals s @ sent
           \<and> (\<forall>root files. Inserted root files \<notin> set sent))"
    by (auto simp: sd_state_changed_silent_or_ejected debug_def send_def)
next
  show "sd_state s = UNSURE \<and> answers (serial_queue s) = l # rest \<and> captured_matches l \<noteq> []
        \<longrightarrow>
        (\<exists>r s1. update' s = Some (r, s1)
           \<and> (if list_all (\<lambda>line. line_error line = None) (map py_lower (captured_matches l))
                then r = Inr () \<and> sd_state s1 = PRESENT
                     \<and> (\<exists>api. signals s1 = signals s @ [Updated api PRESENT])
                else (\<exists>e. r = Inl e) \<and> sd_state s1 = UNSURE \<and> signals s1 = signals s))"
    using first_cycle_from_unsure_listing [of s l rest] by blast
qed




lemma absent_then_inserted_stored:
  "file_tree absent_then_inserted = Some 0"
  "to_api_file_tree (objects absent_then_inserted) 0
     = Some (FileTree ''MOUNT'' ''SD Card'' (Some True) None None None None)"
  by code_simp+

lemma inserted_first_stored: "file_tree inserted_first = None"
  by code_simp

lemma present_card_stored:
  "file_tree present_card = Some 0" "bool' (objects present_card) 0"
  by code_simp+

lemma present_card_run:
  "update' (SDCard_init empty_heap (queue [listing [''A.GCO 10'']]))
     = Some (Inr (), present_card)"
proof -
  let ?first = "SDCard_init empty_heap (queue [listing [''A.GCO 10'']])"
  have ok: "map_option fst (update' ?first) = Some (Inr ())"
    by code_simp
  then obtain r s where rs: "update' ?first = Some (r, s)"
    by (cases "update' ?first") auto
  with ok have "r = Inr ()" by simp
  with rs show ?thesis by (simp add: present_card_def after_def)
qed

theorem inserted_only_on_initialising_to_present_witness:
  "sd_state absent_then_inserted = INITIALISING
   \<and> sd_state (after (sd_state_changed PRESENT absent_then_inserted)) = PRESENT
   \<and> signals (after (sd_state_changed PRESENT absent_then_inserted))
       = signals absent_then_inserted
         @ [Inserted ''/'' (FileTree ''MOUNT'' ''SD Card'' (Some True) None None None None)]
   \<and> sd_state inserted_first = INITIALISING
   \<and> sd_state (after (sd_state_changed PRESENT inserted_first)) = INITIALISING
   \<and> signals (after (sd_state_changed PRESENT inserted_first)) = signals inserted_first
   \<and> sd_state present_card = PRESENT
   \<and> sd_state (after (sd_state_changed ABSENT present_card)) = ABSENT
   \<and> sd_state (SDCard_init empty_heap (queue [listing [''A.GCO 10'']])) = UNSURE
   \<and> answers (serial_queue (SDCard_init empty_heap (queue [listing [''A.GCO 10'']])))
       = [listing [''A.GCO 10'']]
   \<and> captured_matches (listing [''A.GCO 10'']) = [''A.GCO 10'']
   \<and> line_error (py_lower ''A.GCO 10'') = None
   \<and> update' (SDCard_init empty_heap (queue [listing [''A.GCO 10'']]))
       = Some (Inr (), present_card)
   \<and> signals present_card
       = [Updated (FileTree ''MOUNT'' ''SD Card'' (Some True) None None None
            (Some [FileTree ''FILE'' ''a.gco'' None (Some 10) None None None])) PRESENT]
   \<and> line_error (py_lower ''D/X.GCO 2'') = None
   \<and> observe (update' (SDCard_init empty_heap (queue [listing [''D/X.GCO 2'']])))
       = Some (Inr (), PRESENT, False,
               [Updated (FileTree ''MOUNT'' ''SD Card'' (Some True) None None None
                  (Some [FileTree ''DIR'' ''d'' None None None None
                     (Some [FileTree ''FILE'' ''x.gco'' None (Some 2) None None None])]))
                  PRESENT],
               [''M20''], 1)
   \<and> line_error (py_lower ''oops'') = Some ValueError
   \<and> observe (update' (SDCard_init empty_heap (queue [listing [''oops'']])))
       = Some (Inl ValueError, UNSURE, False, [], [''M20''], 1)"
proof -
  let ?first = "SDCard_init empty_heap (queue [listing [''A.GCO 10'']])"
  let ?nested = "SDCard_init empty_heap (queue [listing [''D/X.GCO 2'']])"
  let ?bad = "SDCard_init empty_heap (queue [listing [''oops'']])"
  let ?empty = "FileTree ''MOUNT'' ''SD Card'' (Some True) None None None None"
  have i: "sd_state absent_then_inserted = INITIALISING"
    using absent_then_inserted_observed by (simp add: observe_def)
  have "\<exists>s'. sd_state_changed PRESENT absent_then_inserted = Some (Inr (), s')
          \<and> signals s' = signals absent_then_inserted @ [Inserted ''/'' ?empty]"
    using inserted_only_on_initialising_to_present
            [of absent_then_inserted PRESENT, THEN conjunct1]
          i absent_then_inserted_stored
    by simp
  then obtain s' where ok: "sd_state_changed PRESENT absent_then_inserted = Some (Inr (), s')"
    and sig: "signals s' = signals absent_then_inserted @ [Inserted ''/'' ?empty]"
    by blast
  have st: "sd_state s' = PRESENT"
    using inserted_only_on_initialising_to_present
            [of absent_then_inserted PRESENT, THEN conjunct1] i ok
    by simp
  have j: "sd_state inserted_first = INITIALISING"
    using inserted_first_observed by (simp add: observe_def)
  obtain s2 where raised: "sd_state_changed PRESENT inserted_first
                             = Some (Inl AttributeError, s2)"
    using j inserted_first_stored by (simp add: sd_state_changed_def debug_def)
  have err: "sd_state s2 = INITIALISING \<and> signals s2 = signals inserted_first"
    using inserted_only_on_initialising_to_present
            [of inserted_first PRESENT, THEN conjunct1] j raised
    by simp
  have p: "sd_state present_card = PRESENT"
    using present_card_observed by (simp add: observe_def)
  have "\<exists>s3. sd_state_changed ABSENT present_card = Some (Inr (), s3) \<and> sd_state s3 = ABSENT"
    using inserted_only_on_initialising_to_present
            [of present_card ABSENT, THEN conjunct2, THEN conjunct1] p
    by auto
  then have gone: "sd_state (after (sd_state_changed ABSENT present_card)) = ABSENT"
    by (auto simp: after_def)
  have u: "sd_state ?first = UNSURE"
    and q: "answers (serial_queue ?first) = [listing [''A.GCO 10'']]"
    and cap: "captured_matches (listing [''A.GCO 10'']) = [''A.GCO 10'']"
    by (simp_all add: SDCard_init_def queue_def listing_def)
  have fine: "line_error (py_lower ''A.GCO 10'') = None"
    by code_simp
  have "\<exists>r s1. update' ?first = Some (r, s1)
          \<and> r = Inr () \<and> sd_state s1 = PRESENT
          \<and> (\<exists>api. signals s1 = signals ?first @ [Updated api PRESENT])"
    using inserted_only_on_initialising_to_present
            [where s = ?first and l = "listing [''A.GCO 10'']" and rest = "[]",
             THEN conjunct2, THEN conjunct2]
          u q cap fine
    by simp
  then have first_present: "sd_state present_card = PRESENT"
    using present_card_run by auto
  have sigp: "signals present_card
       = [Updated (FileTree ''MOUNT'' ''SD Card'' (Some True) None None None
            (Some [FileTree ''FILE'' ''a.gco'' None (Some 10) None None None])) PRESENT]"
    using present_card_observed by (simp add: observe_def)
  have nested_fine: "line_error (py_lower ''D/X.GCO 2'') = None"
    by code_simp
  have nested: "observe (update' ?nested)
       = Some (Inr (), PRESENT, False,
               [Updated (FileTree ''MOUNT'' ''SD Card'' (Some True) None None None
                  (Some [FileTree ''DIR'' ''d'' None None None None
                     (Some [FileTree ''FILE'' ''x.gco'' None (Some 2) None None None])]))
                  PRESENT],
               [''M20''], 1)"
    by code_simp
  have bad_line: "line_error (py_lower ''oops'') = Some ValueError"
    by code_simp
  have ub: "sd_state ?bad = UNSURE"
    and qb: "answers (serial_queue ?bad) = [listing [''oops'']]"
    and capb: "captured_matches (listing [''oops'']) = [''oops'']"
    by (simp_all add: SDCard_init_def queue_def listing_def)
  have "\<exists>r s1. update' ?bad = Some (r, s1)
          \<and> (\<exists>e. r = Inl e) \<and> sd_state s1 = UNSURE \<and> signals s1 = signals ?bad"
    using inserted_only_on_initialising_to_present
            [where s = ?bad and l = "listing [''oops'']" and rest = "[]",
             THEN conjunct2, THEN conjunct2]
          ub qb capb bad_line
    by simp
  have bad: "observe (update' ?bad) = Some (Inl ValueError, UNSURE, False, [], [''M20''], 1)"
    by code_simp
  have a1: "sd_state (after (sd_state_changed PRESENT absent_then_inserted)) = PRESENT"
    and a2: "signals (after (sd_state_changed PRESENT absent_then_inserted))
       = signals absent_then_inserted @ [Inserted ''/'' ?empty]"
    using ok sig st by (simp_all add: after_def)
  have b1: "sd_state (after (sd_state_changed PRESENT inserted_first)) = INITIALISING"
    and b2: "signals (after (sd_state_changed PRESENT inserted_first)) = signals inserted_first"
    using raised err by (simp_all add: after_def)
  show ?thesis
    using i a1 a2 j b1 b2 first_present gone u q cap fine present_card_run sigp
      nested_fine nested bad_line bad
    by (intro conjI)
qed

subsection \<open>The inserted signal before the first stored tree\<close>

text \<open>
  C10. A new SDCard has no \<^verbatim>\<open>file_tree\<close>; a cycle that returns has stored one. A
  change from INITIALISING to PRESENT that returns had a stored tree to read, and
  without one it raises AttributeError, sends nothing and leaves the state INITIALISING.
  So when an insertion notification reaches a new SDCard and the first cycle then gets an
  empty listing and a probe that confirms the card, the cycle raises AttributeError and
  no inserted signal is sent.
\<close>

theorem inserted_before_first_tree:
  "file_tree (SDCard_init h q) = None
   \<and> (update' s = Some (Inr (), s') \<longrightarrow> (\<exists>t. file_tree s' = Some t))
   \<and> (sd_state s = INITIALISING \<and> sd_state_changed PRESENT s = Some (Inr (), s') \<longrightarrow>
        (\<exists>t. file_tree s = Some t))
   \<and> (sd_state s = INITIALISING \<and> file_tree s = None \<longrightarrow>
        (\<exists>s'. sd_state_changed PRESENT s = Some (Inl AttributeError, s')
            \<and> sd_state s' = INITIALISING \<and> signals s' = signals s))
   \<and> (answers q = l # p # rest \<and> captured_matches l = [] \<and> is_confirmed p
        \<and> match_sd_present p = Some (Some g # gs) \<longrightarrow>
        (\<exists>s'. and_then (sd_inserted (SDCard_init h q)) (\<lambda>_. update')
                 = Some (Inl AttributeError, s')
            \<and> sd_state s' = INITIALISING \<and> signals s' = []))"
proof (intro conjI impI)
  show "file_tree (SDCard_init h q) = None"
    by (simp add: SDCard_init_def)
next
  assume "update' s = Some (Inr (), s')"
  then show "\<exists>t. file_tree s' = Some t"
    unfolding update'_def
    by (elim and_then_Inr) (auto simp: Let_def send_def split: option.splits if_splits)
next
  assume "sd_state s = INITIALISING \<and> sd_state_changed PRESENT s = Some (Inr (), s')"
  then show "\<exists>t. file_tree s = Some t"
    by (auto simp: sd_state_changed_def debug_def Let_def split: option.splits)
next
  assume "sd_state s = INITIALISING \<and> file_tree s = None"
  then show "\<exists>s'. sd_state_changed PRESENT s = Some (Inl AttributeError, s')
            \<and> sd_state s' = INITIALISING \<and> signals s' = signals s"
    by (simp add: sd_state_changed_def debug_def)
next
  assume a: "answers q = l # p # rest \<and> captured_matches l = [] \<and> is_confirmed p
        \<and> match_sd_present p = Some (Some g # gs)"
  let ?s0 = "SDCard_init h q"
  obtain s1 where ins: "sd_inserted ?s0 = Some (Inr (), s1)"
    and s1: "sd_state s1 = INITIALISING" "file_tree s1 = None" "signals s1 = []"
      "serial_queue s1 = q"
    by (simp add: sd_inserted_def SDCard_init_def sd_state_changed_def debug_def)
  from a s1 obtain s2 where c: "construct_file_tree s1 = Some (Inr (fresh (objects s1)), s2)"
    and empty: "\<not> bool' (objects s2) (fresh (objects s1))"
    and q2: "answers (serial_queue s2) = p # rest"
    using construct_file_tree_empty_listing [of s1 l "p # rest"] by auto
  from c s1 have s2: "sd_state s2 = INITIALISING" "file_tree s2 = None" "signals s2 = []"
    using construct_file_tree_frame [OF c] by simp_all
  from a s2 q2 obtain s3 where d: "decide_presence s2 = Some (Inl AttributeError, s3)"
    and s3: "sd_state s3 = INITIALISING" "signals s3 = []"
    using decide_presence_present_before_first_tree [of s2 p rest g gs] by auto
  have "and_then (sd_inserted ?s0) (\<lambda>_. update') = Some (Inl AttributeError, s3)"
    by (simp add: ins and_then_def update'_def c s2 empty d)
  with s3 show "\<exists>s'. and_then (sd_inserted ?s0) (\<lambda>_. update') = Some (Inl AttributeError, s')
            \<and> sd_state s' = INITIALISING \<and> signals s' = []"
    by blast
qed

theorem inserted_before_first_tree_witness:
  "update' (SDCard_init empty_heap (queue [listing [''A.GCO 10'']])) = Some (Inr (), present_card)
   \<and> file_tree present_card = Some 0
   \<and> sd_state absent_then_inserted = INITIALISING
   \<and> file_tree absent_then_inserted = Some 0
   \<and> sd_state inserted_first = INITIALISING
   \<and> file_tree inserted_first = None
   \<and> map_option fst (sd_state_changed PRESENT inserted_first) = Some (Inl AttributeError)
   \<and> answers (queue [listing [], card_present]) = [listing [], card_present]
   \<and> captured_matches (listing []) = []
   \<and> is_confirmed card_present = True
   \<and> match_sd_present card_present = Some [Some ''ok'']
   \<and> observe (and_then (sd_inserted (SDCard_init empty_heap (queue [listing [], card_present])))
                 (\<lambda>_. update'))
       = Some (Inl AttributeError, INITIALISING, False, [], [''M20'', ''M21''], 2)"
proof -
  let ?first = "SDCard_init empty_heap (queue [listing [''A.GCO 10'']])"
  let ?q = "queue [listing [], card_present]"
  have t: "\<exists>t. file_tree present_card = Some t"
    using inserted_before_first_tree [of _ _ ?first present_card, THEN conjunct2, THEN conjunct1]
          present_card_run
    by simp
  have i: "sd_state absent_then_inserted = INITIALISING"
    using absent_then_inserted_observed by (simp add: observe_def)
  have j: "sd_state inserted_first = INITIALISING"
    using inserted_first_observed by (simp add: observe_def)
  have "\<exists>s'. sd_state_changed PRESENT inserted_first = Some (Inl AttributeError, s')"
    using inserted_before_first_tree
            [of _ _ inserted_first, THEN conjunct2, THEN conjunct2, THEN conjunct2, THEN conjunct1]
          j inserted_first_stored
    by auto
  then have raised: "map_option fst (sd_state_changed PRESENT inserted_first)
                       = Some (Inl AttributeError)"
    by auto
  have q: "answers ?q = [listing [], card_present]" "captured_matches (listing []) = []"
    "is_confirmed card_present = True" "match_sd_present card_present = Some [Some ''ok'']"
    by (simp_all add: queue_def listing_def card_present_def)
  have "\<exists>s'. and_then (sd_inserted (SDCard_init empty_heap ?q)) (\<lambda>_. update')
                 = Some (Inl AttributeError, s')
            \<and> sd_state s' = INITIALISING \<and> signals s' = []"
    using inserted_before_first_tree
            [of empty_heap ?q _ _ "listing []" card_present "[]" "''ok''" "[]",
             THEN conjunct2, THEN conjunct2, THEN conjunct2, THEN conjunct2]
          q
    by simp
  have scenario: "observe (and_then (sd_inserted (SDCard_init empty_heap ?q)) (\<lambda>_. update'))
       = Some (Inl AttributeError, INITIALISING, False, [], [''M20'', ''M21''], 2)"
    by code_simp
  show ?thesis
    using present_card_run present_card_stored(1) i absent_then_inserted_stored(1) j
      inserted_first_stored raised q scenario
    by (intro conjI)
qed

subsection \<open>Where the code departs from its description\<close>

lemma set_contains_identity: "set_contains h S x = (x \<in> set S)"
  by (induction S) (auto simp: eq'_def)

text \<open>
  C1. The description of \<^verbatim>\<open>diff\<close> takes the removed files as the descendants of
  \<open>self\<close> without those of the other tree, and the new files as the descendants of the
  other tree without those of \<open>self\<close>. The source computes both from the same
  expression, so in every heap the new files are the removed files. For the trees built
  from the files x, y and from the files y, z, the removed files and the new files are
  both x and y, z is in neither, and the log calls x and y changed.
\<close>

theorem diff_new_files_are_removed_files:
  "new_files h self other_tree = removed_files h self other_tree
   \<and> map_option
        (\<lambda>(a, b, h). (full_paths h (descendants_set (cells h a)),
                      full_paths h (descendants_set (cells h b)),
                      full_paths h (removed_files h a b),
                      full_paths h (new_files h a b),
                      diff h a b))
        (two_trees [''x 1'', ''y 2''] [''y 2'', ''z 3''])
       = Some ([''/x'', ''/y''], [''/y'', ''/z''], [''/x'', ''/y''], [''/x'', ''/y''],
               [Debug ''File at /x has been changed.'',
                Debug ''File at /y has been changed.''])"
proof
  show "new_files h self other_tree = removed_files h self other_tree"
    by (simp add: new_files_def removed_files_def)
next
  show "map_option
        (\<lambda>(a, b, h). (full_paths h (descendants_set (cells h a)),
                      full_paths h (descendants_set (cells h b)),
                      full_paths h (removed_files h a b),
                      full_paths h (new_files h a b),
                      diff h a b))
        (two_trees [''x 1'', ''y 2''] [''y 2'', ''z 3''])
       = Some ([''/x'', ''/y''], [''/y'', ''/z''], [''/x'', ''/y''], [''/x'', ''/y''],
               [Debug ''File at /x has been changed.'',
                Debug ''File at /y has been changed.''])"
    by code_simp
qed

text \<open>
  C2. The description keys the descendants set by the hashed tuple, so that two objects
  with the same tuple are one element. The class defines \<^verbatim>\<open>__hash__\<close> and no
  \<^verbatim>\<open>__eq__\<close>, so a set tells its elements apart by identity: an object is in a set
  exactly when that very object was added. Two trees built from the same one-line
  listing hold two FILE objects (addresses 1 and 3) with the same tuple, and each is
  reported as removed when its tree is compared with the other.
\<close>

theorem descendants_set_keyed_by_identity:
  "set_contains h S x = (x \<in> set S)
   \<and> map_option
        (\<lambda>(a, b, h). (hash' (cells h 1), hash' (cells h 3),
                      descendants_set (cells h a), descendants_set (cells h b),
                      removed_files h a b, removed_files h b a))
        (two_trees [''y 2''] [''y 2''])
       = Some ((FILE, None, Some 2, None, None), (FILE, None, Some 2, None, None),
               [1], [3], [1], [3])"
proof
  show "set_contains h S x = (x \<in> set S)"
    by (rule set_contains_identity)
next
  show "map_option
        (\<lambda>(a, b, h). (hash' (cells h 1), hash' (cells h 3),
                      descendants_set (cells h a), descendants_set (cells h b),
                      removed_files h a b, removed_files h b a))
        (two_trees [''y 2''] [''y 2''])
       = Some ((FILE, None, Some 2, None, None), (FILE, None, Some 2, None, None),
               [1], [3], [1], [3])"
    by code_simp
qed

text \<open>
  C3. The description allows one probe in a cycle. The two tests of \<^verbatim>\<open>_update\<close> are
  two \<^verbatim>\<open>if\<close> statements, and the second reads the state the first has just set: a
  cycle that starts in UNSURE with an empty listing and a probe that finds the card runs
  the probe again. It sends M20, M21, M21 and waits three times.
\<close>

theorem update_probes_twice:
  "observe (update' (SDCard_init empty_heap (queue [listing [], card_present, card_present])))
     = Some (Inr (), PRESENT, False,
             [Updated (FileTree ''MOUNT'' ''SD Card'' (Some True) None None None None) PRESENT],
             [''M20'', ''M21'', ''M21''], 3)"
  by code_simp

text \<open>
  C4. The description gives the inserted signal the tree of the cycle that found the
  card. \<^verbatim>\<open>sd_state_changed\<close> reads \<^verbatim>\<open>file_tree\<close>, which \<^verbatim>\<open>_update\<close> assigns
  only afterwards, so the signal carries the tree of the cycle before. The card was
  ABSENT, a card with one file is inserted, and the next cycle lists the file: the
  inserted signal carries the empty tree stored by the cycle before, while the tree
  built and stored by this cycle (address 1) converts to the tree with the file.
\<close>

theorem inserted_signal_carries_previous_tree:
  "observe (update' absent_then_inserted)
     = Some (Inr (), PRESENT, False,
             [Updated (FileTree ''MOUNT'' ''SD Card'' (Some True) None None None None) ABSENT,
              Inserted ''/'' (FileTree ''MOUNT'' ''SD Card'' (Some True) None None None None),
              Updated (FileTree ''MOUNT'' ''SD Card'' (Some True) None None None
                 (Some [FileTree ''FILE'' ''a.gco'' None (Some 10) None None None])) PRESENT],
             [''M20'', ''M21'', ''M20''], 3)
   \<and> file_tree absent_then_inserted = Some 0
   \<and> file_tree (after (update' absent_then_inserted)) = Some 1
   \<and> to_api_file_tree (objects (after (update' absent_then_inserted))) 1
       = Some (FileTree ''MOUNT'' ''SD Card'' (Some True) None None None
                 (Some [FileTree ''FILE'' ''a.gco'' None (Some 10) None None None]))"
  by code_simp

end
